theory Spec2Isabelle
  imports Main "HOL-Library.AList"
begin

section \<open>Data model of the composition engine\<close>

text \<open>
  The development embeds \<^verbatim>\<open>compiler/CompositionProofs.py\<close>: the classes
  \<^verbatim>\<open>Proof\<close>, \<^verbatim>\<open>OrProof\<close>, \<^verbatim>\<open>OrProver\<close>, \<^verbatim>\<open>AndProof\<close>, \<^verbatim>\<open>AndProver\<close>,
  \<^verbatim>\<open>AndVerifier\<close> and the helper functions \<^verbatim>\<open>find_residual_chal\<close> and
  \<^verbatim>\<open>sub_proof_prover\<close>. Python integers (petlib \<^verbatim>\<open>Bn\<close>) are \<^typ>\<open>int\<close>, dictionaries
  are association lists with distinct keys in insertion order, exceptions are the left
  summand of a result, and every random draw reads an explicit random source.
\<close>

text \<open>
  Modelled from the spec: the class \<^verbatim>\<open>Secret\<close> belongs to the module
  \<^verbatim>\<open>Abstractions\<close>. A secret variable is an identity together with an optional bound
  scalar value.
\<close>

record secret =
  sec_name :: nat
  sec_value :: "int option"

text \<open>
  Modelled from the spec: generators are group elements of known order. The model keeps
  an identity, the order of the group (\<^verbatim>\<open>g.group.order()\<close>) and whether the element
  is a petlib \<^verbatim>\<open>EcPt\<close> (the test made by \<^verbatim>\<open>ec_encode\<close>).
\<close>

record generator =
  gen_name :: nat
  gen_order :: nat
  gen_is_EcPt :: bool

type_synonym dict = "(secret \<times> int) list"

text \<open>
  The source raises plain \<^verbatim>\<open>Exception\<close> objects told apart by their message; the
  constructors below name them as the error taxonomy does. The last five are the
  exceptions the Python runtime itself raises on a bad index, on a method call on
  \<^verbatim>\<open>None\<close> or a read of an attribute never assigned, on a failed tuple unpacking,
  on an argument of the wrong shape and on a read of a local variable never assigned.
\<close>

datatype error =
    ArityTooSmall
  | GroupMismatch
  | OrFlaw
  | InconsistentChallenge
  | StatementMismatch
  | IndexError
  | AttributeError
  | ValueError
  | TypeError
  | NameError

text \<open>Responses: a leaf answers with a list of scalars, an AND node with the list of its
  children's responses, an OR node with the pair (subchallenges, responses).\<close>

datatype resp =
    LeafResp "int list"
  | AndResp "resp list"
  | OrResp "int list" "resp list"

datatype 'c com =
    LeafCom 'c
  | ListCom "'c com list"

datatype 'c precom =
    NoPrecom
  | LeafPrecom 'c
  | ListPrecom "'c precom list"

record 'c SimulationTranscript =
  commitment :: "'c com"
  challenge :: int
  responses :: resp
  precommitment :: "'c precom"

text \<open>The descriptor returned by \<^verbatim>\<open>get_proof_id\<close>: a leaf's own descriptor, or the
  two-element list \<^verbatim>\<open>[kind, [child ids]]\<close> of a composite.\<close>

datatype 'i proof_id =
    LeafId 'i
  | CompId string "'i proof_id list"

text \<open>
  Expression nodes. The leaf classes are defined in other modules; the model keeps the attributes
  the composites read from a child (\<^verbatim>\<open>secret_vars\<close>, \<^verbatim>\<open>generators\<close>,
  \<^verbatim>\<open>secret_values\<close>, \<^verbatim>\<open>simulation\<close>) and an opaque body. The composite
  constructors carry the attributes that methods assign after construction
  (\<^verbatim>\<open>secret_values\<close>, \<^verbatim>\<open>simulation\<close>, and \<^verbatim>\<open>chosen_idx\<close> of an OR node, which
  does not exist before the first draw). The attributes \<^verbatim>\<open>secret_vars\<close> and
  \<^verbatim>\<open>generators\<close> are assigned once by \<^verbatim>\<open>__init__\<close> from the children and never
  again, so they are read off the tree.
\<close>

record 'l leaf =
  lf_body :: 'l
  lf_secret_vars :: "secret list"
  lf_generators :: "generator list"
  lf_secret_values :: dict
  lf_simulation :: bool

datatype 'l Proof =
    Leaf "'l leaf"
  | AndProof "'l Proof list" dict bool
  | OrProof "'l Proof list" dict bool "nat option"

text \<open>Two facts on the size of a child, for the termination of the recursions over
  the tree.\<close>

lemma size_mem_le: "p \<in> set ps \<Longrightarrow> size p \<le> size_list size (ps :: 'l Proof list)"
  by (metis size_list_estimation' order_refl)

lemma size_nth_le: "i < length ps \<Longrightarrow> size (ps ! i) \<le> size_list size (ps :: 'l Proof list)"
  by (simp add: size_mem_le)

fun subproofs :: "'l Proof \<Rightarrow> 'l Proof list" where
  "subproofs (Leaf lf) = []"
| "subproofs (AndProof ps vals sim) = ps"
| "subproofs (OrProof ps vals sim ch) = ps"

fun simulation :: "'l Proof \<Rightarrow> bool" where
  "simulation (Leaf lf) = lf_simulation lf"
| "simulation (AndProof ps vals sim) = sim"
| "simulation (OrProof ps vals sim ch) = sim"

fun secret_values :: "'l Proof \<Rightarrow> dict" where
  "secret_values (Leaf lf) = lf_secret_values lf"
| "secret_values (AndProof ps vals sim) = vals"
| "secret_values (OrProof ps vals sim ch) = vals"

fun chosen_idx :: "'l Proof \<Rightarrow> nat option" where
  "chosen_idx (OrProof ps vals sim ch) = ch"
| "chosen_idx p = None"

fun is_AndProof :: "'l Proof \<Rightarrow> bool" where
  "is_AndProof (AndProof ps vals sim) = True"
| "is_AndProof p = False"

fun is_OrProof :: "'l Proof \<Rightarrow> bool" where
  "is_OrProof (OrProof ps vals sim ch) = True"
| "is_OrProof p = False"

text \<open>
  Modelled from the spec: \<^verbatim>\<open>get_secret_vars\<close> and \<^verbatim>\<open>get_generators\<close> live in the
  module \<^verbatim>\<open>Abstractions\<close>. The secret bag of a composite is the
  concatenation, with multiplicity and in order, of its children's bags; the generator
  bag likewise.
\<close>

fun secret_vars :: "'l Proof \<Rightarrow> secret list" where
  "secret_vars (Leaf lf) = lf_secret_vars lf"
| "secret_vars (AndProof ps vals sim) = concat (map secret_vars ps)"
| "secret_vars (OrProof ps vals sim ch) = concat (map secret_vars ps)"

fun generators :: "'l Proof \<Rightarrow> generator list" where
  "generators (Leaf lf) = lf_generators lf"
| "generators (AndProof ps vals sim) = concat (map generators ps)"
| "generators (OrProof ps vals sim ch) = concat (map generators ps)"

definition get_secret_vars :: "'l Proof list \<Rightarrow> secret list" where
  "get_secret_vars ps = concat (map secret_vars ps)"

definition get_generators :: "'l Proof list \<Rightarrow> generator list" where
  "get_generators ps = concat (map generators ps)"

text \<open>The random source: an infinite stream of raw draws, consumed from the front.\<close>

type_synonym rng = "nat \<Rightarrow> nat"

definition next_rand :: "rng \<Rightarrow> nat \<times> rng" where
  "next_rand r = (r 0, \<lambda>n. r (Suc n))"

text \<open>
  The external collaborators, which the engine consumes as an interface. Of a leaf:
  \<^verbatim>\<open>get_proof_id\<close>, \<^verbatim>\<open>recompute_commitment\<close>, \<^verbatim>\<open>get_prover\<close> (which may
  update the leaf and returns a prover or \<^verbatim>\<open>None\<close>), \<^verbatim>\<open>simulate_proof\<close>, and the
  leaf prover's \<^verbatim>\<open>compute_response\<close>. Of the libraries: petlib's \<^verbatim>\<open>encode\<close>
  (told whether the custom encoder \<^verbatim>\<open>enc_GXpt\<close> is passed) and the digest of
  \<^verbatim>\<open>sha256\<close>.
\<close>

record ('l, 'i, 'c, 'q) leaf_ops =
  leaf_get_proof_id :: "'l leaf \<Rightarrow> 'i"
  leaf_recompute_commitment :: "'l leaf \<Rightarrow> int \<Rightarrow> resp \<Rightarrow> error + 'c"
  leaf_get_prover :: "'l leaf \<Rightarrow> dict \<Rightarrow> 'l leaf \<times> 'q option"
  leaf_simulate_proof ::
    "'l leaf \<Rightarrow> dict option \<Rightarrow> int option \<Rightarrow> rng \<Rightarrow> 'c SimulationTranscript \<times> rng"
  leaf_compute_response :: "'q \<Rightarrow> int \<Rightarrow> int list"
  encode :: "bool \<Rightarrow> 'i proof_id \<Rightarrow> string"
  sha256_digest :: "string \<Rightarrow> string"

section \<open>Challenge algebra\<close>

text \<open>Modelled from the spec: the challenge bit length \<^verbatim>\<open>CHAL_LENGTH\<close> is a constant of
  the module \<^verbatim>\<open>Abstractions\<close>; its reference value is 128.\<close>

definition CHAL_LENGTH :: nat where
  "CHAL_LENGTH = 128"

text \<open>Modelled from the spec: \<^verbatim>\<open>add_Bn_array\<close> is a helper of \<^verbatim>\<open>Abstractions\<close>; it
  sums the array and reduces the sum modulo the given modulus, to a value in
  \<open>0 \<dots> modulus - 1\<close>.\<close>

definition add_Bn_array :: "int list \<Rightarrow> int \<Rightarrow> int" where
  "add_Bn_array arr modulus = sum_list arr mod modulus"

definition find_residual_chal :: "int list \<Rightarrow> int \<Rightarrow> nat \<Rightarrow> int" where
  "find_residual_chal arr chal chal_length =
     (let modulus = 2 ^ chal_length;
          temp_arr = arr @ [- chal]
      in - add_Bn_array temp_arr modulus)"

section \<open>Recomputing commitments\<close>

text \<open>Python's \<^verbatim>\<open>xs[i]\<close> for a non-negative index.\<close>

definition list_get :: "'a list \<Rightarrow> nat \<Rightarrow> error + 'a" where
  "list_get xs i = (if i < length xs then Inr (xs ! i) else Inl IndexError)"

text \<open>A loop that appends one result per iteration stops at the first exception.\<close>

fun collect :: "(error + 'a) list \<Rightarrow> error + 'a list" where
  "collect [] = Inr []"
| "collect (Inl e # rs) = Inl e"
| "collect (Inr x # rs) = (case collect rs of Inl e \<Rightarrow> Inl e | Inr xs \<Rightarrow> Inr (x # xs))"

text \<open>
  \<^verbatim>\<open>recompute_commitment\<close> of the three kinds of node. The OR node stores the
  subchallenges it received in \<^verbatim>\<open>self.or_challenges\<close> for the duration of the call; no
  other method reads that attribute, so it is a local value here (the write itself is
  recorded by \<^verbatim>\<open>recompute_commitment_node\<close> below). A response of the wrong shape is a
  \<^verbatim>\<open>TypeError\<close>.
\<close>

function recompute_commitment ::
  "('l, 'i, 'c, 'q) leaf_ops \<Rightarrow> 'l Proof \<Rightarrow> int \<Rightarrow> resp \<Rightarrow> error + 'c com" where
  "recompute_commitment L (Leaf lf) chal response =
     (case leaf_recompute_commitment L lf chal response of
        Inl e \<Rightarrow> Inl e
      | Inr c \<Rightarrow> Inr (LeafCom c))"
| "recompute_commitment L (AndProof ps vals sim) chal response =
     (case response of
        AndResp andresp \<Rightarrow>
          (case collect (map (\<lambda>i.
                   case list_get andresp i of
                     Inl e \<Rightarrow> Inl e
                   | Inr r \<Rightarrow> recompute_commitment L (ps ! i) chal r)
                 [0..<length ps]) of
             Inl e \<Rightarrow> Inl e
           | Inr comm \<Rightarrow> Inr (ListCom comm))
      | _ \<Rightarrow> Inl TypeError)"
| "recompute_commitment L (OrProof ps vals sim ch) chal response =
     (case response of
        OrResp or_challenges resps \<Rightarrow>
          if find_residual_chal or_challenges chal CHAL_LENGTH \<noteq> 0
          then Inl InconsistentChallenge
          else
            (case collect (map (\<lambda>i.
                     case list_get or_challenges i of
                       Inl e \<Rightarrow> Inl e
                     | Inr c \<Rightarrow>
                         (case list_get resps i of
                            Inl e \<Rightarrow> Inl e
                          | Inr r \<Rightarrow> recompute_commitment L (ps ! i) c r))
                   [0..<length ps]) of
               Inl e \<Rightarrow> Inl e
             | Inr comm \<Rightarrow> Inr (ListCom comm))
      | _ \<Rightarrow> Inl TypeError)"
  by pat_completeness auto
termination
  by (relation "measure (\<lambda>(L, p, c, r). size p)")
     (auto simp: less_Suc_eq_le size_nth_le)


section \<open>Dictionaries\<close>

definition dict_update :: "dict \<Rightarrow> dict \<Rightarrow> dict" where
  "dict_update d other = fold (\<lambda>(k, v) acc. AList.update k v acc) other d"

definition known_secret_values :: "secret list \<Rightarrow> dict" where
  "known_secret_values svs =
     fold (\<lambda>sec acc. case sec_value sec of None \<Rightarrow> acc | Some v \<Rightarrow> AList.update sec v acc) svs []"

definition secrets_for_prover :: "secret list \<Rightarrow> dict \<Rightarrow> dict" where
  "secrets_for_prover keys secrets_dict =
     fold (\<lambda>(s_name, v) acc. if s_name \<in> set keys then AList.update s_name v acc else acc)
       secrets_dict []"

section \<open>Construction\<close>

definition check_groups :: "secret list \<Rightarrow> generator list \<Rightarrow> error + unit" where
  "check_groups svs gens =
     (if \<forall>(s, g) \<in> set (zip svs gens). \<forall>(s', g') \<in> set (zip svs gens).
           s = s' \<longrightarrow> gen_order g = gen_order g'
      then Inr () else Inl GroupMismatch)"

fun check_or_flaw :: "'l Proof \<Rightarrow> secret list option \<Rightarrow> error + unit" where
  "check_or_flaw (Leaf lf) forbidden_secrets = Inr ()"
| "check_or_flaw (OrProof ps vals sim ch) forbidden_secrets =
     (case forbidden_secrets of
        None \<Rightarrow> Inr ()
      | Some forbidden \<Rightarrow>
          if \<exists>secret \<in> set (secret_vars (OrProof ps vals sim ch)).
               count_list forbidden secret > count_list (secret_vars (OrProof ps vals sim ch)) secret
          then Inl OrFlaw else Inr ())"
| "check_or_flaw (AndProof ps vals sim) forbidden_secrets =
     (let forbidden =
            (case forbidden_secrets of
               None \<Rightarrow> secret_vars (AndProof ps vals sim)
             | Some f \<Rightarrow> f)
      in case collect (map (\<lambda>subp. check_or_flaw subp (Some forbidden)) ps) of
           Inl e \<Rightarrow> Inl e
         | Inr _ \<Rightarrow> Inr ())"

definition OrProof_init :: "'l Proof list \<Rightarrow> error + 'l Proof" where
  "OrProof_init sps =
     (if length sps < 2 then Inl ArityTooSmall
      else case check_groups (get_secret_vars sps) (get_generators sps) of
             Inl e \<Rightarrow> Inl e
           | Inr _ \<Rightarrow>
               Inr (OrProof sps (known_secret_values (get_secret_vars sps)) False None))"

definition AndProof_init :: "'l Proof list \<Rightarrow> error + 'l Proof" where
  "AndProof_init sps =
     (if length sps < 2 then Inl ArityTooSmall
      else case check_groups (get_secret_vars sps) (get_generators sps) of
             Inl e \<Rightarrow> Inl e
           | Inr _ \<Rightarrow>
               (let self = AndProof sps (known_secret_values (get_secret_vars sps)) False
                in case check_or_flaw self None of
                     Inl e \<Rightarrow> Inl e
                   | Inr _ \<Rightarrow> Inr self))"

definition Proof_and :: "'l Proof \<Rightarrow> 'l Proof \<Rightarrow> error + 'l Proof" where
  "Proof_and self other =
     (if is_AndProof other then
        (if is_AndProof self then AndProof_init (subproofs self @ subproofs other)
         else AndProof_init (self # subproofs other))
      else if is_AndProof self then AndProof_init (subproofs self @ [other])
      else AndProof_init [self, other])"

definition Proof_or :: "'l Proof \<Rightarrow> 'l Proof \<Rightarrow> error + 'l Proof" where
  "Proof_or self other =
     (if is_OrProof other then
        (if is_OrProof self then OrProof_init (subproofs self @ subproofs other)
         else OrProof_init (self # subproofs other))
      else if is_OrProof self then OrProof_init (subproofs self @ [other])
      else OrProof_init [self, other])"

fun get_proof_id :: "('l, 'i, 'c, 'q) leaf_ops \<Rightarrow> 'l Proof \<Rightarrow> 'i proof_id" where
  "get_proof_id L (Leaf lf) = LeafId (leaf_get_proof_id L lf)"
| "get_proof_id L (AndProof ps vals sim) = CompId ''And'' (map (get_proof_id L) ps)"
| "get_proof_id L (OrProof ps vals sim ch) = CompId ''Or'' (map (get_proof_id L) ps)"

section \<open>Statement binding\<close>

definition ec_encode :: "('l, 'i, 'c, 'q) leaf_ops \<Rightarrow> 'l Proof \<Rightarrow> 'i proof_id \<Rightarrow> error + string" where
  "ec_encode L self data =
     (case list_get (generators self) 0 of
        Inl e \<Rightarrow> Inl e
      | Inr g \<Rightarrow> Inr (encode L (\<not> gen_is_EcPt g) data))"

definition prehash_statement :: "('l, 'i, 'c, 'q) leaf_ops \<Rightarrow> 'l Proof \<Rightarrow> error + string" where
  "prehash_statement L self =
     (case ec_encode L self (get_proof_id L self) of
        Inl e \<Rightarrow> Inl e
      | Inr bytes \<Rightarrow> Inr (sha256_digest L bytes))"

definition check_statement ::
  "('l, 'i, 'c, 'q) leaf_ops \<Rightarrow> 'l Proof \<Rightarrow> string \<Rightarrow> error + string" where
  "check_statement L self statement =
     (case prehash_statement L self of
        Inl e \<Rightarrow> Inl e
      | Inr cur_statement \<Rightarrow>
          if statement \<noteq> cur_statement then Inl StatementMismatch else Inr cur_statement)"

section \<open>Random draws\<close>

definition chal_randbits :: "nat \<Rightarrow> rng \<Rightarrow> int \<times> rng" where
  "chal_randbits bits r = (let (n, r') = next_rand r in (int n mod 2 ^ bits, r'))"

definition random_below :: "nat \<Rightarrow> rng \<Rightarrow> int \<times> rng" where
  "random_below order r = (let (n, r') = next_rand r in (int n mod int order, r'))"

definition choice :: "'a list \<Rightarrow> rng \<Rightarrow> 'a \<times> rng" where
  "choice xs r = (let (n, r') = next_rand r in (xs ! (n mod length xs), r'))"

fun thread :: "('a \<Rightarrow> rng \<Rightarrow> error + 'b \<times> rng) \<Rightarrow> 'a list \<Rightarrow> rng \<Rightarrow> error + 'b list \<times> rng" where
  "thread f [] r = Inr ([], r)"
| "thread f (x # xs) r =
     (case f x r of
        Inl e \<Rightarrow> Inl e
      | Inr (y, r') \<Rightarrow>
          (case thread f xs r' of
             Inl e \<Rightarrow> Inl e
           | Inr (ys, r'') \<Rightarrow> Inr (y # ys, r'')))"

lemma thread_cong [fundef_cong]:
  "xs = ys \<Longrightarrow> r = r' \<Longrightarrow> (\<And>x s. x \<in> set ys \<Longrightarrow> f x s = g x s) \<Longrightarrow> thread f xs r = thread g ys r'"
proof (induction ys arbitrary: xs r r')
  case Nil
  then show ?case by simp
next
  case (Cons y ys)
  have "thread f ys s = thread g ys s" for s
    by (rule Cons.IH) (simp_all add: Cons.prems(3))
  with Cons.prems show ?case
    by (simp split: sum.split prod.split)
qed

section \<open>Simulation\<close>

fun draw_randomizers :: "(secret \<times> generator) list \<Rightarrow> rng \<Rightarrow> dict \<times> rng" where
  "draw_randomizers [] r = ([], r)"
| "draw_randomizers ((u, g) # rest) r =
     (let (v, r') = random_below (gen_order g) r;
          (random_vals, r'') = draw_randomizers rest r'
      in ((u, v) # random_vals, r''))"

definition get_randomizers :: "'l Proof \<Rightarrow> rng \<Rightarrow> dict \<times> rng" where
  "get_randomizers self r =
     (let dict_name_gen =
            fold (\<lambda>(k, g) acc. AList.update k g acc) (zip (secret_vars self) (generators self)) []
      in draw_randomizers dict_name_gen r)"

definition update_randomizers :: "'l Proof \<Rightarrow> dict option \<Rightarrow> rng \<Rightarrow> dict \<times> rng" where
  "update_randomizers self randomizers_dict r =
     (case randomizers_dict of
        None \<Rightarrow> get_randomizers self r
      | Some rd \<Rightarrow>
          if \<exists>x \<in> set (secret_vars self). x \<notin> fst ` set rd
          then (let (tmp, r') = get_randomizers self r in (dict_update tmp rd, r'))
          else (rd, r))"

function simulate_proof ::
  "('l, 'i, 'c, 'q) leaf_ops \<Rightarrow> 'l Proof \<Rightarrow> dict option \<Rightarrow> int option \<Rightarrow> rng
     \<Rightarrow> error + 'c SimulationTranscript \<times> rng" where
  "simulate_proof L (Leaf lf) responses_dict chal r =
     Inr (leaf_simulate_proof L lf responses_dict chal r)"
| "simulate_proof L (AndProof ps vals sim) responses_dict chal r =
     (let (rd, r1) = update_randomizers (AndProof ps vals sim) responses_dict r;
          (c, r2) = (case chal of None \<Rightarrow> chal_randbits CHAL_LENGTH r1 | Some c \<Rightarrow> (c, r1))
      in case thread (\<lambda>subp. simulate_proof L subp (Some rd) (Some c)) ps r2 of
           Inl e \<Rightarrow> Inl e
         | Inr (sims, r3) \<Rightarrow>
             Inr (\<lparr>commitment = ListCom (map commitment sims), challenge = c,
                   responses = AndResp (map responses sims),
                   precommitment = ListPrecom (map precommitment sims)\<rparr>, r3))"
| "simulate_proof L (OrProof ps vals sim ch) responses_dict chal r =
     (let (c, r1) = (case chal of None \<Rightarrow> chal_randbits CHAL_LENGTH r | Some c \<Rightarrow> (c, r))
      in case thread (\<lambda>index. simulate_proof L (ps ! index) None None) [0..<length ps - 1] r1 of
           Inl e \<Rightarrow> Inl e
         | Inr (sims, r2) \<Rightarrow>
             if length ps < 2 then Inl NameError
             else
               (let or_chals = map challenge sims;
                    final_chal = find_residual_chal or_chals c CHAL_LENGTH
                in case simulate_proof L (ps ! (length ps - 1)) None (Some final_chal) r2 of
                     Inl e \<Rightarrow> Inl e
                   | Inr (trfinal, r3) \<Rightarrow>
                       Inr (\<lparr>commitment = ListCom (map commitment sims @ [commitment trfinal]),
                             challenge = c,
                             responses = OrResp (or_chals @ [final_chal])
                                           (map responses sims @ [responses trfinal]),
                             precommitment =
                               ListPrecom (map precommitment sims @ [precommitment trfinal])\<rparr>,
                            r3)))"
  by pat_completeness auto
termination
  by (relation "measure (\<lambda>(L, p, rd, c, r). size p)")
     (auto simp: less_Suc_eq_le size_nth_le size_mem_le)

section \<open>Provers\<close>

datatype ('l, 'c, 'q) Prover =
    LeafProver 'q
  | AndProver "'l Proof" "('l, 'c, 'q) Prover list"
  | OrProver "'l Proof" "('l, 'c, 'q) Prover" nat "'c SimulationTranscript list"

definition setup_simulations ::
  "('l, 'i, 'c, 'q) leaf_ops \<Rightarrow> 'l Proof \<Rightarrow> nat \<Rightarrow> rng
     \<Rightarrow> error + 'c SimulationTranscript list \<times> rng" where
  "setup_simulations L proof true_prover_idx r =
     thread (\<lambda>index. simulate_proof L (subproofs proof ! index) None None)
       (filter (\<lambda>index. index \<noteq> true_prover_idx) [0..<length (subproofs proof)]) r"

definition OrProver_init ::
  "('l, 'i, 'c, 'q) leaf_ops \<Rightarrow> 'l Proof \<Rightarrow> ('l, 'c, 'q) Prover \<Rightarrow> rng
     \<Rightarrow> error + ('l, 'c, 'q) Prover \<times> rng" where
  "OrProver_init L proof subprover r =
     (case chosen_idx proof of
        None \<Rightarrow> Inl AttributeError
      | Some true_prover_idx \<Rightarrow>
          (case setup_simulations L proof true_prover_idx r of
             Inl e \<Rightarrow> Inl e
           | Inr (simulations, r') \<Rightarrow>
               Inr (OrProver proof subprover true_prover_idx simulations, r')))"

text \<open>
  The selection loop of \<^verbatim>\<open>OrProof.get_prover\<close>: draw an index among the remaining
  candidates, ask that child for a prover, and on \<^verbatim>\<open>None\<close> remove the index and draw
  again; when no candidate remains, the last index drawn is recorded as the chosen one and
  the result is \<^verbatim>\<open>None\<close>. The first draw and the draws of the loop body are the same
  statements and are modelled by one recursion. A child's \<^verbatim>\<open>get_prover\<close> updates the
  child, so each attempt writes the updated child back; an index is tried at most once.
  \<^verbatim>\<open>random.choice\<close> on an empty list raises \<^verbatim>\<open>IndexError\<close>.
\<close>

function or_draw ::
  "(nat \<Rightarrow> rng \<Rightarrow> error + ('s \<times> 'p option) \<times> rng) \<Rightarrow> 's list \<Rightarrow> nat list \<Rightarrow> rng
     \<Rightarrow> error + ('s list \<times> nat \<times> 'p option) \<times> rng" where
  "or_draw attempt ps possible r =
     (if possible = [] then Inl IndexError
      else
        (let (chosen, r1) = choice possible r
         in case attempt chosen r1 of
              Inl e \<Rightarrow> Inl e
            | Inr ((p', valid_prover), r2) \<Rightarrow>
                (let ps' = ps[chosen := p']
                 in case valid_prover of
                      Some q \<Rightarrow> Inr ((ps', chosen, Some q), r2)
                    | None \<Rightarrow>
                        (let possible' = remove1 chosen possible
                         in if length possible' = 0 then Inr ((ps', chosen, None), r2)
                            else or_draw attempt ps' possible' r2))))"
  by pat_completeness auto
termination
proof (relation "measure (\<lambda>(attempt, ps, possible, r). length possible)")
  fix attempt :: "nat \<Rightarrow> rng \<Rightarrow> error + ('s \<times> 'p option) \<times> rng"
    and ps ps' :: "'s list" and possible possible' :: "nat list" and r r1 r2 :: rng
    and x :: "nat \<times> rng" and chosen :: nat
  assume ne: "possible \<noteq> []" and x: "x = choice possible r" and c: "(chosen, r1) = x"
    and p: "possible' = remove1 chosen possible"
  from ne x c have "chosen \<in> set possible"
    by (auto simp: choice_def next_rand_def)
  then have "length possible' < length possible"
    using p ne by (simp add: length_remove1 Suc_pred)
  then show "((attempt, ps', possible', r2), (attempt, ps, possible, r))
      \<in> measure (\<lambda>(attempt, ps, possible, r). length possible)"
    by simp
qed simp

declare or_draw.simps [simp del]

lemma or_draw_cong [fundef_cong]:
  assumes "ps = ps'" "possible = possible'" "r = r'"
    and "\<And>i s. i \<in> set possible' \<Longrightarrow> attempt i s = attempt' i s"
  shows "or_draw attempt ps possible r = or_draw attempt' ps' possible' r'"
proof -
  have "(\<forall>i s. i \<in> set possible \<longrightarrow> attempt i s = attempt' i s) \<longrightarrow>
        or_draw attempt ps possible r = or_draw attempt' ps possible r"
  proof (induction attempt ps possible r rule: or_draw.induct)
    case (1 attempt ps possible r)
    show ?case
    proof (intro impI)
      assume eq: "\<forall>i s. i \<in> set possible \<longrightarrow> attempt i s = attempt' i s"
      show "or_draw attempt ps possible r = or_draw attempt' ps possible r"
      proof (cases "possible = []")
        case True
        then show ?thesis by (simp add: or_draw.simps)
      next
        case False
        obtain chosen r1 where ch: "choice possible r = (chosen, r1)"
          by (cases "choice possible r")
        with False have mem: "chosen \<in> set possible"
          by (auto simp: choice_def next_rand_def)
        then have att: "attempt chosen r1 = attempt' chosen r1"
          using eq by simp
        have sub: "\<forall>i s. i \<in> set (remove1 chosen possible) \<longrightarrow> attempt i s = attempt' i s"
          using eq by (auto dest: notin_set_remove1)
        show ?thesis
        proof (cases "attempt' chosen r1")
          case (Inl e)
          with False ch att show ?thesis
            by (subst or_draw.simps, subst (2) or_draw.simps) simp
        next
          case (Inr res)
          obtain p' vp r2 where res: "res = ((p', vp), r2)"
            by (cases res) auto
          show ?thesis
          proof (cases vp)
            case (Some q)
            with False ch att Inr res show ?thesis
              by (subst or_draw.simps, subst (2) or_draw.simps) simp
          next
            case None
            have "or_draw attempt (ps[chosen := p']) (remove1 chosen possible) r2 =
                  or_draw attempt' (ps[chosen := p']) (remove1 chosen possible) r2"
              if "length (remove1 chosen possible) \<noteq> 0"
              using 1 [OF False ch [symmetric] refl, of "((p', vp), r2)" "(p', vp)" r2 p' vp
                  "ps[chosen := p']" "remove1 chosen possible"]
                that att Inr res None sub
              by simp
            with False ch att Inr res None show ?thesis
              by (subst or_draw.simps, subst (2) or_draw.simps) (auto simp: Let_def)
          qed
        qed
      qed
    qed
  qed
  with assms show ?thesis by simp
qed

function get_prover ::
  "('l, 'i, 'c, 'q) leaf_ops \<Rightarrow> 'l Proof \<Rightarrow> dict \<Rightarrow> rng
     \<Rightarrow> error + ('l Proof \<times> ('l, 'c, 'q) Prover option) \<times> rng" where
  "get_prover L (Leaf lf) secrets_dict r =
     (let (lf', q) = leaf_get_prover L lf secrets_dict
      in Inr ((Leaf lf', map_option LeafProver q), r))"
| "get_prover L (AndProof ps vals sim) secrets_dict r =
     (let vals' = dict_update vals secrets_dict
      in if sim = True \<or> vals' = [] then Inr ((AndProof ps vals' sim, None), r)
         else
           (case thread (\<lambda>sub_proof.
                     get_prover L sub_proof (secrets_for_prover (secret_vars sub_proof) vals'))
                   ps r of
              Inl e \<Rightarrow> Inl e
            | Inr (results, r') \<Rightarrow>
                (let self = AndProof (map fst results) vals' sim;
                     subs = map snd results
                 in if None \<in> set subs then Inr ((self, None), r')
                    else Inr ((self, Some (AndProver self (map the subs))), r'))))"
| "get_prover L (OrProof ps vals sim ch) secrets_dict r =
     (let vals' = dict_update vals secrets_dict
      in if sim = True \<or> vals' = [] then Inr ((OrProof ps vals' sim ch, None), r)
         else
           (let candidates = filter (\<lambda>idx. \<not> simulation (ps ! idx)) [0..<length ps]
            in if length candidates = 0 then Inr ((OrProof ps vals' sim ch, None), r)
               else
                 (case or_draw (\<lambda>idx.
                           get_prover L (ps ! idx) (secrets_for_prover (secret_vars (ps ! idx)) vals'))
                         ps candidates r of
                    Inl e \<Rightarrow> Inl e
                  | Inr ((ps', chosen, valid_prover), r') \<Rightarrow>
                      (let self = OrProof ps' vals' sim (Some chosen)
                       in case valid_prover of
                            None \<Rightarrow> Inr ((self, None), r')
                          | Some subprover \<Rightarrow>
                              (case OrProver_init L self subprover r' of
                                 Inl e \<Rightarrow> Inl e
                               | Inr (prover, r'') \<Rightarrow> Inr ((self, Some prover), r''))))))"
  by pat_completeness auto
termination
  by (relation "measure (\<lambda>(L, p, sd, r). size p)")
     (auto simp: less_Suc_eq_le size_nth_le size_mem_le)

definition sub_proof_prover ::
  "('l, 'i, 'c, 'q) leaf_ops \<Rightarrow> 'l Proof \<Rightarrow> dict \<Rightarrow> rng
     \<Rightarrow> error + ('l Proof \<times> ('l, 'c, 'q) Prover option) \<times> rng" where
  "sub_proof_prover L sub_proof secrets_dict r =
     get_prover L sub_proof (secrets_for_prover (secret_vars sub_proof) secrets_dict) r"

fun compute_response ::
  "('l, 'i, 'c, 'q) leaf_ops \<Rightarrow> ('l, 'c, 'q) Prover \<Rightarrow> int \<Rightarrow> error + resp" where
  "compute_response L (LeafProver q) chal = Inr (LeafResp (leaf_compute_response L q chal))"
| "compute_response L (AndProver proof subs) chal =
     (case collect (map (\<lambda>subp. compute_response L subp chal) subs) of
        Inl e \<Rightarrow> Inl e
      | Inr rs \<Rightarrow> Inr (AndResp rs))"
| "compute_response L (OrProver proof subprover true_prover_idx simulations) chal =
     (let residual_chal = find_residual_chal (map challenge simulations) chal CHAL_LENGTH
      in case collect (map (\<lambda>index.
                  if index = true_prover_idx
                  then (case compute_response L subprover residual_chal of
                          Inl e \<Rightarrow> Inl e
                        | Inr rs \<Rightarrow> Inr (residual_chal, rs))
                  else
                    (let index1 = (if index > true_prover_idx then index - 1 else index)
                     in case list_get simulations index1 of
                          Inl e \<Rightarrow> Inl e
                        | Inr el \<Rightarrow> Inr (challenge el, responses el)))
                [0..<length (subproofs proof)]) of
           Inl e \<Rightarrow> Inl e
         | Inr pairs \<Rightarrow> Inr (OrResp (map fst pairs) (map snd pairs)))"

definition prove ::
  "('l, 'i, 'c, 'q) leaf_ops \<Rightarrow> (('l, 'c, 'q) Prover \<Rightarrow> string \<Rightarrow> rng \<Rightarrow> error + 't \<times> rng)
     \<Rightarrow> 'l Proof \<Rightarrow> dict \<Rightarrow> string \<Rightarrow> rng \<Rightarrow> error + ('l Proof \<times> 't) \<times> rng" where
  "prove L get_NI_proof self secret_dict message r =
     (case get_prover L self secret_dict r of
        Inl e \<Rightarrow> Inl e
      | Inr ((self', prover), r') \<Rightarrow>
          (case prover of
             None \<Rightarrow> Inl AttributeError
           | Some p \<Rightarrow>
               (case get_NI_proof p message r' of
                  Inl e \<Rightarrow> Inl e
                | Inr (transcript, r'') \<Rightarrow> Inr ((self', transcript), r''))))"

fun set_simulate :: "'l Proof \<Rightarrow> 'l Proof" where
  "set_simulate (Leaf lf) = Leaf (lf\<lparr>lf_simulation := True\<rparr>)"
| "set_simulate (AndProof ps vals sim) = AndProof ps vals True"
| "set_simulate (OrProof ps vals sim ch) = OrProof ps vals True ch"

text \<open>
  \<^verbatim>\<open>simulate\<close> sets the flag on the node before anything else, so the node is returned
  with the flag set on every path, also when the simulation or the hashing raises.
\<close>

definition simulate ::
  "('l, 'i, 'c, 'q) leaf_ops \<Rightarrow> 'l Proof \<Rightarrow> int option \<Rightarrow> rng
     \<Rightarrow> 'l Proof \<times> (error + ('c SimulationTranscript \<times> string) \<times> rng)" where
  "simulate L self chal r =
     (let self' = set_simulate self
      in (self',
          case simulate_proof L self' None chal r of
            Inl e \<Rightarrow> Inl e
          | Inr (transcript, r') \<Rightarrow>
              (case prehash_statement L self' of
                 Inl e \<Rightarrow> Inl e
               | Inr statement \<Rightarrow> Inr ((transcript, statement), r'))))"

section \<open>The AND verifier\<close>

datatype 'c received =
    Bare "'c com"
  | WithStatement string "'c com"

record ('l, 'c) AndVerifier =
  av_proof :: "'l Proof"
  av_commitment :: "'c received option"
  av_challenge :: "int option"

definition send_challenge ::
  "('l, 'i, 'c, 'q) leaf_ops \<Rightarrow> ('l, 'c) AndVerifier \<Rightarrow> 'c received \<Rightarrow> bool \<Rightarrow> rng
     \<Rightarrow> ('l, 'c) AndVerifier \<times> (error + int) \<times> rng" where
  "send_challenge L self msg mute r =
     (let (c, r') = chal_randbits CHAL_LENGTH r
      in if mute then (self\<lparr>av_commitment := Some msg, av_challenge := Some c\<rparr>, Inr c, r')
         else
           (case msg of
              WithStatement statement com \<Rightarrow>
                (let self1 = self\<lparr>av_commitment := Some (Bare com)\<rparr>
                 in case check_statement L (av_proof self1) statement of
                      Inl e \<Rightarrow> (self1, Inl e, r)
                    | Inr _ \<Rightarrow> (self1\<lparr>av_challenge := Some c\<rparr>, Inr c, r'))
            | Bare (ListCom [a, b]) \<Rightarrow>
                (let self1 = self\<lparr>av_commitment := Some (Bare b)\<rparr>
                 in case prehash_statement L (av_proof self1) of
                      Inl e \<Rightarrow> (self1, Inl e, r)
                    | Inr _ \<Rightarrow> (self1, Inl StatementMismatch, r))
            | Bare (ListCom _) \<Rightarrow> (self, Inl ValueError, r)
            | Bare (LeafCom _) \<Rightarrow> (self, Inl TypeError, r)))"

section \<open>A concrete instance of the leaf interface\<close>

text \<open>
  A small instance of the interface, used to evaluate the definitions on concrete trees.
  A leaf recomputes the commitment \<open>challenge + sum of the responses\<close>; it builds a prover
  when every one of its secrets has a value; its simulation takes the challenge given (or
  draws one) and answers every secret from the response dictionary given (\<open>0\<close> for a
  secret that has no entry).
\<close>

definition example_simulate ::
  "unit leaf \<Rightarrow> dict option \<Rightarrow> int option \<Rightarrow> rng \<Rightarrow> int SimulationTranscript \<times> rng" where
  "example_simulate lf responses_dict chal r =
     (let (c, r') = (case chal of None \<Rightarrow> chal_randbits CHAL_LENGTH r | Some c \<Rightarrow> (c, r));
          d = (case responses_dict of None \<Rightarrow> [] | Some d \<Rightarrow> d);
          resp = map (\<lambda>s. case map_of d s of None \<Rightarrow> 0 | Some v \<Rightarrow> v) (lf_secret_vars lf)
      in (\<lparr>commitment = LeafCom (c + sum_list resp), challenge = c,
           responses = LeafResp resp, precommitment = NoPrecom\<rparr>, r'))"

definition example_ops :: "(unit, nat, int, unit) leaf_ops" where
  "example_ops = \<lparr>
     leaf_get_proof_id = (\<lambda>lf. length (lf_secret_vars lf)),
     leaf_recompute_commitment =
       (\<lambda>lf c r. case r of LeafResp xs \<Rightarrow> Inr (c + sum_list xs) | _ \<Rightarrow> Inl TypeError),
     leaf_get_prover =
       (\<lambda>lf d. (lf\<lparr>lf_secret_values := dict_update (lf_secret_values lf) d\<rparr>,
                if set (lf_secret_vars lf) \<subseteq> fst ` set (dict_update (lf_secret_values lf) d)
                then Some () else None)),
     leaf_simulate_proof = example_simulate,
     leaf_compute_response = (\<lambda>q c. [c]),
     encode = (\<lambda>custom data. if custom then ''G'' else ''E''),
     sha256_digest = (\<lambda>bytes. bytes) \<rparr>"

definition example_leaf :: "secret list \<Rightarrow> generator list \<Rightarrow> unit leaf" where
  "example_leaf svs gs = \<lparr> lf_body = (), lf_secret_vars = svs, lf_generators = gs,
     lf_secret_values = [], lf_simulation = False \<rparr>"


definition x0 :: secret where "x0 = \<lparr>sec_name = 0, sec_value = None\<rparr>"
definition x1 :: secret where "x1 = \<lparr>sec_name = 1, sec_value = None\<rparr>"
definition x2 :: secret where "x2 = \<lparr>sec_name = 2, sec_value = None\<rparr>"
definition g0 :: generator where "g0 = \<lparr>gen_name = 0, gen_order = 7, gen_is_EcPt = True\<rparr>"

definition example_verifier :: "(unit, int) AndVerifier" where
  "example_verifier = \<lparr>av_proof =
       AndProof [Leaf (example_leaf [x0] [g0]), Leaf (example_leaf [x1] [g0])] [] False,
     av_commitment = None, av_challenge = None\<rparr>"

section \<open>Notions used to state the properties\<close>

text \<open>The operands that an infix composition splices: the children of an operand of
  the same kind, the operand itself otherwise.\<close>

definition and_children :: "'l Proof \<Rightarrow> 'l Proof list" where
  "and_children p = (if is_AndProof p then subproofs p else [p])"

definition or_children :: "'l Proof \<Rightarrow> 'l Proof list" where
  "or_children p = (if is_OrProof p then subproofs p else [p])"

text \<open>The OR nodes of a subtree that are reached through AND nodes only, and all the OR
  nodes of a subtree.\<close>

fun top_ors :: "'l Proof \<Rightarrow> 'l Proof list" where
  "top_ors (Leaf lf) = []"
| "top_ors (OrProof ps vals sim ch) = [OrProof ps vals sim ch]"
| "top_ors (AndProof ps vals sim) = concat (map top_ors ps)"

fun all_ors :: "'l Proof \<Rightarrow> 'l Proof list" where
  "all_ors (Leaf lf) = []"
| "all_ors (OrProof ps vals sim ch) = OrProof ps vals sim ch # concat (map all_ors ps)"
| "all_ors (AndProof ps vals sim) = concat (map all_ors ps)"

text \<open>The responses that a response tree holds for a secret: the entries of the leaves'
  response lists at the positions where the leaf declares that secret.\<close>

function responses_for :: "'l Proof \<Rightarrow> resp \<Rightarrow> secret \<Rightarrow> int list" where
  "responses_for (Leaf lf) (LeafResp xs) s =
     map snd (filter (\<lambda>(s', v). s' = s) (zip (lf_secret_vars lf) xs))"
| "responses_for (AndProof ps vals sim) (AndResp rs) s =
     concat (map (\<lambda>i. responses_for (ps ! i) (rs ! i) s) [0..<min (length ps) (length rs)])"
| "responses_for (OrProof ps vals sim ch) (OrResp cs rs) s =
     concat (map (\<lambda>i. responses_for (ps ! i) (rs ! i) s) [0..<min (length ps) (length rs)])"
| "responses_for (Leaf lf) (AndResp rs) s = []"
| "responses_for (Leaf lf) (OrResp cs rs) s = []"
| "responses_for (AndProof ps vals sim) (LeafResp xs) s = []"
| "responses_for (AndProof ps vals sim) (OrResp cs rs) s = []"
| "responses_for (OrProof ps vals sim ch) (LeafResp xs) s = []"
| "responses_for (OrProof ps vals sim ch) (AndResp rs) s = []"
  by pat_completeness auto
termination
  by (relation "measure (\<lambda>(p, r, s). size p)")
     (auto simp: less_Suc_eq_le size_nth_le)

text \<open>
  Modelled from the spec: the simulation of a leaf is defined by the leaf classes. A leaf that is
  handed a response dictionary covering its secrets draws nothing for them: its response
  list is the list of the dictionary's values for its secrets, in the order of its secrets.
\<close>

definition leaf_follows_responses :: "('l, 'i, 'c, 'q) leaf_ops \<Rightarrow> bool" where
  "leaf_follows_responses L \<longleftrightarrow>
     (\<forall>lf rd c r. set (lf_secret_vars lf) \<subseteq> fst ` set rd \<longrightarrow>
        responses (fst (leaf_simulate_proof L lf (Some rd) c r))
          = LeafResp (map (\<lambda>s. the (map_of rd s)) (lf_secret_vars lf)))"

section \<open>State written on the nodes by verification\<close>

text \<open>
  \<^verbatim>\<open>OrProof.recompute_commitment\<close> assigns the subchallenges it received to the attribute
  \<^verbatim>\<open>or_challenges\<close> of the OR node, before it checks them. The attribute is kept in a
  store beside the tree: a node is addressed by the list of child indices that leads to it
  from the root, and the store maps the address of a node to the value of its attribute.
\<close>

type_synonym address = "nat list"

type_synonym or_challenges = "address \<Rightarrow> int list option"

text \<open>A loop that appends one result per iteration and stops at the first exception,
  the store being passed from one iteration to the next.\<close>

fun collect_st ::
  "('a \<Rightarrow> 's \<Rightarrow> (error + 'b) \<times> 's) \<Rightarrow> 'a list \<Rightarrow> 's \<Rightarrow> (error + 'b list) \<times> 's" where
  "collect_st f [] st = (Inr [], st)"
| "collect_st f (x # xs) st =
     (case f x st of
        (Inl e, st1) \<Rightarrow> (Inl e, st1)
      | (Inr y, st1) \<Rightarrow>
          (case collect_st f xs st1 of
             (Inl e, st2) \<Rightarrow> (Inl e, st2)
           | (Inr ys, st2) \<Rightarrow> (Inr (y # ys), st2)))"

lemma collect_st_cong [fundef_cong]:
  "xs = ys \<Longrightarrow> st = st' \<Longrightarrow> (\<And>x s. x \<in> set ys \<Longrightarrow> f x s = g x s)
   \<Longrightarrow> collect_st f xs st = collect_st g ys st'"
proof (induction ys arbitrary: xs st st')
  case Nil
  then show ?case by simp
next
  case (Cons y ys)
  have "collect_st f ys s = collect_st g ys s" for s
    by (rule Cons.IH) (simp_all add: Cons.prems(3))
  with Cons.prems show ?case
    by (simp split: sum.split prod.split)
qed

text \<open>
  \<^verbatim>\<open>recompute_commitment\<close> with the write on the nodes recorded: the node at address
  \<open>a\<close> recomputes, and the store is returned as the call leaves it, also when the call
  raises. A response of the wrong shape is a \<^verbatim>\<open>TypeError\<close> as above, with no list of
  subchallenges to record. A leaf recomputes as in \<^verbatim>\<open>leaf_recompute_commitment\<close>.
\<close>

function recompute_commitment_node ::
  "('l, 'i, 'c, 'q) leaf_ops \<Rightarrow> 'l Proof \<Rightarrow> address \<Rightarrow> int \<Rightarrow> resp \<Rightarrow> or_challenges
     \<Rightarrow> (error + 'c com) \<times> or_challenges" where
  "recompute_commitment_node L (Leaf lf) a chal response st =
     (case leaf_recompute_commitment L lf chal response of
        Inl e \<Rightarrow> (Inl e, st)
      | Inr c \<Rightarrow> (Inr (LeafCom c), st))"
| "recompute_commitment_node L (AndProof ps vals sim) a chal response st =
     (case response of
        AndResp andresp \<Rightarrow>
          (case collect_st (\<lambda>i s.
                   case list_get andresp i of
                     Inl e \<Rightarrow> (Inl e, s)
                   | Inr r \<Rightarrow> recompute_commitment_node L (ps ! i) (a @ [i]) chal r s)
                 [0..<length ps] st of
             (Inl e, st') \<Rightarrow> (Inl e, st')
           | (Inr comm, st') \<Rightarrow> (Inr (ListCom comm), st'))
      | _ \<Rightarrow> (Inl TypeError, st))"
| "recompute_commitment_node L (OrProof ps vals sim ch) a chal response st =
     (case response of
        OrResp or_challenges resps \<Rightarrow>
          (let st1 = st(a \<mapsto> or_challenges)
           in if find_residual_chal or_challenges chal CHAL_LENGTH \<noteq> 0
              then (Inl InconsistentChallenge, st1)
              else
                (case collect_st (\<lambda>i s.
                         case list_get or_challenges i of
                           Inl e \<Rightarrow> (Inl e, s)
                         | Inr c \<Rightarrow>
                             (case list_get resps i of
                                Inl e \<Rightarrow> (Inl e, s)
                              | Inr r \<Rightarrow> recompute_commitment_node L (ps ! i) (a @ [i]) c r s))
                       [0..<length ps] st1 of
                   (Inl e, st') \<Rightarrow> (Inl e, st')
                 | (Inr comm, st') \<Rightarrow> (Inr (ListCom comm), st')))
      | _ \<Rightarrow> (Inl TypeError, st))"
  by pat_completeness auto
termination
  by (relation "measure (\<lambda>(L, p, a, c, r, st). size p)")
     (auto simp: less_Suc_eq_le size_nth_le)

text \<open>
  Modelled from the spec: \<^verbatim>\<open>Proof.verify\<close> builds a verifier and calls its \<^verbatim>\<open>verify_NI\<close>,
  which belongs to the module \<^verbatim>\<open>Abstractions\<close>. A non-interactive transcript holds the
  challenge, the responses, the precommitment and the statement hash. Verification
  recomputes the commitment from the challenge and the responses of the transcript,
  recomputes the challenge as the hash \<open>H\<close> of the statement hash, the commitment, the
  precommitment and the message, and compares it with the challenge of the transcript. The
  verifier objects hold no state of the expression; the node is returned with the store
  as the recomputation leaves it.
\<close>

record 'c NITranscript =
  ni_challenge :: int
  ni_responses :: resp
  ni_precommitment :: "'c precom"
  ni_statement :: string

definition verify ::
  "('l, 'i, 'c, 'q) leaf_ops \<Rightarrow> (string \<Rightarrow> 'c com \<Rightarrow> 'c precom \<Rightarrow> string \<Rightarrow> int)
     \<Rightarrow> 'l Proof \<times> or_challenges \<Rightarrow> 'c NITranscript \<Rightarrow> string
     \<Rightarrow> ('l Proof \<times> or_challenges) \<times> (error + bool)" where
  "verify L H node transcript message =
     (let (self, st) = node;
          (r_guess, st') = recompute_commitment_node L self []
                             (ni_challenge transcript) (ni_responses transcript) st
      in case r_guess of
           Inl e \<Rightarrow> ((self, st'), Inl e)
         | Inr com \<Rightarrow>
             (case prehash_statement L self of
                Inl e \<Rightarrow> ((self, st'), Inl e)
              | Inr statement \<Rightarrow>
                  ((self, st'),
                   Inr (H statement com (ni_precommitment transcript) message
                          = ni_challenge transcript))))"

text \<open>The addresses of the OR nodes of the subtree whose root has address \<open>a\<close>.\<close>

function or_addresses :: "'l Proof \<Rightarrow> address \<Rightarrow> address list" where
  "or_addresses (Leaf lf) a = []"
| "or_addresses (AndProof ps vals sim) a =
     concat (map (\<lambda>i. or_addresses (ps ! i) (a @ [i])) [0..<length ps])"
| "or_addresses (OrProof ps vals sim ch) a =
     a # concat (map (\<lambda>i. or_addresses (ps ! i) (a @ [i])) [0..<length ps])"
  by pat_completeness auto
termination
  by (relation "measure (\<lambda>(p, a). size p)")
     (auto simp: less_Suc_eq_le size_nth_le)

section \<open>Properties of the challenge algebra and of recomputation\<close>

definition or_child_commitment ::
  "('l, 'i, 'c, 'q) leaf_ops \<Rightarrow> 'l Proof list \<Rightarrow> int list \<Rightarrow> resp list \<Rightarrow> nat \<Rightarrow> error + 'c com" where
  "or_child_commitment L ps cs rs i =
     (case list_get cs i of
        Inl e \<Rightarrow> Inl e
      | Inr c \<Rightarrow> (case list_get rs i of Inl e \<Rightarrow> Inl e | Inr r \<Rightarrow> recompute_commitment L (ps ! i) c r))"


lemma find_residual_chal_zero_iff:
  "find_residual_chal arr chal k = 0 \<longleftrightarrow> sum_list arr mod 2 ^ k = chal mod 2 ^ k"
  unfolding find_residual_chal_def add_Bn_array_def Let_def
  by (simp add: mod_eq_dvd_iff dvd_eq_mod_eq_0)

lemma collect_map_Inr: "collect (map Inr ys) = Inr ys"
  by (induction ys) auto

lemma collect_Inr_iff: "collect xs = Inr ys \<longleftrightarrow> xs = map Inr ys"
proof
  show "collect xs = Inr ys \<Longrightarrow> xs = map Inr ys"
    by (induction xs arbitrary: ys rule: collect.induct) (auto split: sum.splits)
qed (simp add: collect_map_Inr)

lemma collect_Inl_first:
  "collect xs = Inl e \<Longrightarrow> \<exists>i<length xs. xs ! i = Inl e \<and> (\<forall>j<i. \<exists>y. xs ! j = Inr y)"
proof (induction xs rule: collect.induct)
  case 1 then show ?case by simp
next
  case (2 e' rs) then show ?case by auto
next
  case (3 x rs)
  then have "collect rs = Inl e" by (simp split: sum.splits)
  with 3 obtain i where i: "i < length rs" "rs ! i = Inl e" "\<forall>j<i. \<exists>y. rs ! j = Inr y" by blast
  have "\<forall>j<Suc i. \<exists>y. (Inr x # rs) ! j = Inr y"
    using i(3) by (auto simp: nth_Cons split: nat.splits)
  with i show ?case by (intro exI[of _ "Suc i"]) auto
qed

lemma collect_upt_Inr_iff:
  "collect (map g [0..<n]) = Inr cl \<longleftrightarrow> length cl = n \<and> (\<forall>i<n. g i = Inr (cl ! i))"
  unfolding collect_Inr_iff by (auto simp: list_eq_iff_nth_eq)

lemma collect_upt_Inl_first:
  assumes "collect (map g [0..<n]) = Inl e"
  shows "\<exists>i<n. g i = Inl e \<and> (\<forall>j<i. \<exists>y. g j = Inr y)"
proof -
  from collect_Inl_first [OF assms] obtain i where
    i: "i < n" "map g [0..<n] ! i = Inl e" "\<forall>j<i. \<exists>y. map g [0..<n] ! j = Inr y"
    by auto
  then have "g i = Inl e" by simp
  moreover have "\<forall>j<i. \<exists>y. g j = Inr y"
    using i(1,3) by auto
  ultimately show ?thesis using i(1) by blast
qed

lemma recompute_commitment_or_unfold:
  "recompute_commitment L (OrProof ps vals sim ch) chal (OrResp cs rs) =
     (if sum_list cs mod 2 ^ CHAL_LENGTH \<noteq> chal mod 2 ^ CHAL_LENGTH then Inl InconsistentChallenge
      else case collect (map (or_child_commitment L ps cs rs) [0..<length ps]) of
             Inl e \<Rightarrow> Inl e | Inr comm \<Rightarrow> Inr (ListCom comm))"
  by (simp add: find_residual_chal_zero_iff or_child_commitment_def [abs_def])

lemma or_child_commitment_Inr_iff:
  "or_child_commitment L ps cs rs i = Inr c \<longleftrightarrow>
     i < length cs \<and> i < length rs \<and> recompute_commitment L (ps ! i) (cs ! i) (rs ! i) = Inr c"
  by (auto simp: or_child_commitment_def list_get_def split: sum.splits)

lemma or_child_commitment_Inl_iff:
  "or_child_commitment L ps cs rs i = Inl e \<longleftrightarrow>
     (if i < length cs \<and> i < length rs
      then recompute_commitment L (ps ! i) (cs ! i) (rs ! i) = Inl e else e = IndexError)"
  by (auto simp: or_child_commitment_def list_get_def split: sum.splits)

text \<open>
  Claim C2, as amended. For an OR node, a global challenge and a response
  (subchallenges, responses): when the subchallenges do not sum to the global challenge
  modulo \<open>2 ^ CHAL_LENGTH\<close>, \<^verbatim>\<open>recompute_commitment\<close> raises InconsistentChallenge
  before any child is consulted. When they do, any exception it raises is the one of the
  first child (in order) that fails: an IndexError when the lists are too short for that
  child, or the exception of that child's own \<^verbatim>\<open>recompute_commitment\<close>. It returns
  exactly when the sum is congruent and every child returns, and then the result is the
  list whose i-th element is child i's recomputed commitment for the i-th subchallenge and
  the i-th response.
\<close>

theorem recompute_commitment_or_spec:
  "(sum_list cs mod 2 ^ CHAL_LENGTH \<noteq> chal mod 2 ^ CHAL_LENGTH \<longrightarrow>
      recompute_commitment L (OrProof ps vals sim ch) chal (OrResp cs rs) = Inl InconsistentChallenge)
   \<and> (\<forall>e. sum_list cs mod 2 ^ CHAL_LENGTH = chal mod 2 ^ CHAL_LENGTH \<and>
          recompute_commitment L (OrProof ps vals sim ch) chal (OrResp cs rs) = Inl e \<longrightarrow>
          (\<exists>i<length ps.
             (\<forall>j<i. j < length cs \<and> j < length rs \<and>
                (\<exists>c. recompute_commitment L (ps ! j) (cs ! j) (rs ! j) = Inr c)) \<and>
             (if i < length cs \<and> i < length rs
              then recompute_commitment L (ps ! i) (cs ! i) (rs ! i) = Inl e
              else e = IndexError)))
   \<and> (\<forall>comm. recompute_commitment L (OrProof ps vals sim ch) chal (OrResp cs rs) = Inr comm \<longleftrightarrow>
          sum_list cs mod 2 ^ CHAL_LENGTH = chal mod 2 ^ CHAL_LENGTH \<and>
          (\<exists>cl. comm = ListCom cl \<and> length cl = length ps \<and>
             (\<forall>i<length ps. i < length cs \<and> i < length rs \<and>
                recompute_commitment L (ps ! i) (cs ! i) (rs ! i) = Inr (cl ! i))))"
proof (intro conjI allI impI)
  assume "sum_list cs mod 2 ^ CHAL_LENGTH \<noteq> chal mod 2 ^ CHAL_LENGTH"
  then show "recompute_commitment L (OrProof ps vals sim ch) chal (OrResp cs rs) = Inl InconsistentChallenge"
    by (subst recompute_commitment_or_unfold) simp
next
  fix e
  assume a: "sum_list cs mod 2 ^ CHAL_LENGTH = chal mod 2 ^ CHAL_LENGTH \<and>
          recompute_commitment L (OrProof ps vals sim ch) chal (OrResp cs rs) = Inl e"
  then have "collect (map (or_child_commitment L ps cs rs) [0..<length ps]) = Inl e"
    by (subst (asm) recompute_commitment_or_unfold) (auto split: sum.splits)
  from collect_upt_Inl_first [OF this] obtain i where
    i: "i < length ps" "or_child_commitment L ps cs rs i = Inl e"
       "\<forall>j<i. \<exists>y. or_child_commitment L ps cs rs j = Inr y"
    by blast
  show "\<exists>i<length ps.
             (\<forall>j<i. j < length cs \<and> j < length rs \<and>
                (\<exists>c. recompute_commitment L (ps ! j) (cs ! j) (rs ! j) = Inr c)) \<and>
             (if i < length cs \<and> i < length rs
              then recompute_commitment L (ps ! i) (cs ! i) (rs ! i) = Inl e
              else e = IndexError)"
    using i unfolding or_child_commitment_Inr_iff or_child_commitment_Inl_iff
    by (intro exI [of _ i]) simp
next
  fix comm
  show "recompute_commitment L (OrProof ps vals sim ch) chal (OrResp cs rs) = Inr comm \<longleftrightarrow>
          sum_list cs mod 2 ^ CHAL_LENGTH = chal mod 2 ^ CHAL_LENGTH \<and>
          (\<exists>cl. comm = ListCom cl \<and> length cl = length ps \<and>
             (\<forall>i<length ps. i < length cs \<and> i < length rs \<and>
                recompute_commitment L (ps ! i) (cs ! i) (rs ! i) = Inr (cl ! i)))"
  proof -
    let ?G = "collect (map (or_child_commitment L ps cs rs) [0..<length ps])"
    have G: "?G = Inr cl \<longleftrightarrow> length cl = length ps \<and>
        (\<forall>i<length ps. i < length cs \<and> i < length rs \<and>
           recompute_commitment L (ps ! i) (cs ! i) (rs ! i) = Inr (cl ! i))" for cl
      by (simp add: collect_upt_Inr_iff or_child_commitment_Inr_iff)
    have "(case ?G of Inl e \<Rightarrow> Inl e | Inr c \<Rightarrow> Inr (ListCom c)) = Inr comm
        \<longleftrightarrow> (\<exists>cl. comm = ListCom cl \<and> ?G = Inr cl)"
      by (cases ?G) auto
    then show ?thesis
      unfolding recompute_commitment_or_unfold G by auto
  qed
qed

theorem recompute_commitment_or_spec_witness:
  "recompute_commitment example_ops
     (OrProof [Leaf (example_leaf [] []), Leaf (example_leaf [] [])] [] False None)
     6 (OrResp [2, 3] [LeafResp [1], LeafResp [2]]) = Inl InconsistentChallenge
   \<and> recompute_commitment example_ops
     (OrProof [Leaf (example_leaf [] []), Leaf (example_leaf [] [])] [] False None)
     5 (OrResp [2, 3] [LeafResp [1], LeafResp [2]]) = Inr (ListCom [LeafCom 3, LeafCom 5])
   \<and> recompute_commitment example_ops
     (OrProof [Leaf (example_leaf [] []), Leaf (example_leaf [] [])] [] False None)
     5 (OrResp [2, 3] [LeafResp [1]]) = Inl IndexError"
  using
    recompute_commitment_or_spec [where L = example_ops and cs = "[2, 3]" and chal = 6
      and ps = "[Leaf (example_leaf [] []), Leaf (example_leaf [] [])]" and vals = "[]"
      and sim = False and ch = None and rs = "[LeafResp [1], LeafResp [2]]"]
    recompute_commitment_or_spec [where L = example_ops and cs = "[2, 3]" and chal = 5
      and ps = "[Leaf (example_leaf [] []), Leaf (example_leaf [] [])]" and vals = "[]"
      and sim = False and ch = None and rs = "[LeafResp [1], LeafResp [2]]"]
  by (simp add: find_residual_chal_def add_Bn_array_def CHAL_LENGTH_def list_get_def
        example_ops_def upt_rec)

text \<open>
  Claim C2 as stated fails on a nested OR: the outer subchallenges \<open>2, 3\<close> sum to the
  global challenge \<open>5\<close>, yet the call raises InconsistentChallenge, because the inner OR
  child receives the subchallenge \<open>3\<close> with inner subchallenges \<open>1, 1\<close>.
\<close>

theorem recompute_commitment_or_nested_counterexample:
  "sum_list [2, 3] mod 2 ^ CHAL_LENGTH = (5::int) mod 2 ^ CHAL_LENGTH \<and>
   recompute_commitment example_ops
     (OrProof [Leaf (example_leaf [] []),
               OrProof [Leaf (example_leaf [] []), Leaf (example_leaf [] [])] [] False None]
        [] False None)
     5 (OrResp [2, 3] [LeafResp [], OrResp [1, 1] [LeafResp [], LeafResp []]])
   = Inl InconsistentChallenge"
  by (simp add: find_residual_chal_def add_Bn_array_def CHAL_LENGTH_def list_get_def example_ops_def upt_rec)

section \<open>The OR prover's response\<close>

lemma thread_length: "thread f xs r = Inr (ys, r') \<Longrightarrow> length ys = length xs"
  by (induction xs arbitrary: ys r) (auto split: sum.splits prod.splits)

lemma filter_neq_upt:
  assumes "i < n"
  shows "filter (\<lambda>index. index \<noteq> i) [0..<n] = [0..<i] @ [Suc i..<n]"
proof -
  have "[0..<i + (n - i)] = [0..<i] @ [i..<i + (n - i)]"
    by (rule upt_add_eq_append) simp
  then have "[0..<n] = [0..<i] @ [i..<n]"
    using assms by simp
  also have "[i..<n] = i # [Suc i..<n]"
    using assms by (simp add: upt_conv_Cons)
  finally have "[0..<n] = [0..<i] @ i # [Suc i..<n]" .
  then show ?thesis by auto
qed

lemma length_filter_neq_upt: "i < n \<Longrightarrow> length (filter (\<lambda>index. index \<noteq> i) [0..<n]) = n - 1"
  by (simp add: filter_neq_upt)

lemma residual_sum:
  "(sum_list cs + find_residual_chal cs c k) mod 2 ^ k = c mod 2 ^ k"
proof -
  have "find_residual_chal cs c k = - ((sum_list cs - c) mod 2 ^ k)"
    by (simp add: find_residual_chal_def add_Bn_array_def)
  then have "(sum_list cs + find_residual_chal cs c k) mod 2 ^ k
      = (sum_list cs - (sum_list cs - c) mod 2 ^ k) mod 2 ^ k"
    by simp
  also have "\<dots> = (sum_list cs - (sum_list cs - c)) mod 2 ^ k"
    by (simp add: mod_diff_right_eq)
  finally show ?thesis by simp
qed

lemma or_slots:
  assumes "i \<le> length xs"
  shows "map (\<lambda>index. if index = i then a
                       else xs ! (if index > i then index - 1 else index)) [0..<Suc (length xs)]
         = take i xs @ a # drop i xs"
    (is "?l = ?r")
proof (rule nth_equalityI)
  show "length ?l = length ?r"
    using assms by simp
next
  fix j
  assume "j < length ?l"
  then have j: "j < Suc (length xs)" by simp
  then have l: "?l ! j = (if j = i then a else xs ! (if j > i then j - 1 else j))"
    by (simp only: nth_map_upt add_0 minus_nat.diff_0)
  consider "j < i" | "j = i" | "i < j" by linarith
  then show "?l ! j = ?r ! j"
  proof cases
    case 1
    then show ?thesis
      unfolding l using assms by (simp add: nth_append)
  next
    case 2
    then show ?thesis
      unfolding l using assms by (simp add: nth_append)
  next
    case 3
    then obtain d where d: "j = Suc (i + d)"
      by (metis less_iff_Suc_add)
    then show ?thesis
      unfolding l using assms j by (simp add: nth_append)
  qed
qed

lemma compute_response_or:
  assumes i: "i < length (subproofs proof)"
    and len: "length sims = length (subproofs proof) - 1"
    and sub: "compute_response L subprover (find_residual_chal (map challenge sims) c CHAL_LENGTH) = Inr rs"
  shows "compute_response L (OrProver proof subprover i sims) c =
     Inr (OrResp (take i (map challenge sims) @
                    find_residual_chal (map challenge sims) c CHAL_LENGTH # drop i (map challenge sims))
                 (take i (map responses sims) @ rs # drop i (map responses sims)))"
proof -
  let ?res = "find_residual_chal (map challenge sims) c CHAL_LENGTH"
  let ?pairs = "map (\<lambda>el. (challenge el, responses el)) sims"
  let ?h = "\<lambda>index. if index = i then (?res, rs)
                     else ?pairs ! (if index > i then index - 1 else index)"
  let ?g = "\<lambda>index.
      if index = i
      then (case compute_response L subprover ?res of Inl e \<Rightarrow> Inl e | Inr rs \<Rightarrow> Inr (?res, rs))
      else (let index1 = (if index > i then index - 1 else index)
            in case list_get sims index1 of
                 Inl e \<Rightarrow> Inl e
               | Inr el \<Rightarrow> Inr (challenge el, responses el))"
  have n: "length (subproofs proof) = Suc (length sims)"
    using i len by simp
  have g: "?g index = Inr (?h index)" if "index < Suc (length sims)" for index
  proof (cases "index = i")
    case True
    then show ?thesis using sub by simp
  next
    case False
    then have "(if index > i then index - 1 else index) < length sims"
      using that i n by auto
    then show ?thesis
      using False by (simp add: list_get_def Let_def)
  qed
  have "map ?g [0..<Suc (length sims)] = map (\<lambda>index. Inr (?h index)) [0..<Suc (length sims)]"
  proof (rule map_cong [OF refl])
    fix index
    assume "index \<in> set [0..<Suc (length sims)]"
    then have "index < Suc (length sims)" by auto
    then show "?g index = Inr (?h index)" by (rule g)
  qed
  also have "\<dots> = map Inr (map ?h [0..<Suc (length sims)])"
    by simp
  finally have "collect (map ?g [0..<Suc (length sims)]) = Inr (map ?h [0..<Suc (length sims)])"
    by (simp only: collect_map_Inr)
  moreover have "map ?h [0..<Suc (length sims)] = take i ?pairs @ (?res, rs) # drop i ?pairs"
    using or_slots [of i ?pairs "(?res, rs)"] i n by simp
  ultimately have c: "collect (map ?g [0..<length (subproofs proof)]) =
      Inr (take i ?pairs @ (?res, rs) # drop i ?pairs)"
    using n by simp
  have "compute_response L (OrProver proof subprover i sims) c =
      (case collect (map ?g [0..<length (subproofs proof)]) of
         Inl e \<Rightarrow> Inl e
       | Inr pairs \<Rightarrow> Inr (OrResp (map fst pairs) (map snd pairs)))"
    by (simp add: Let_def)
  then show ?thesis
    unfolding c by (simp add: take_map drop_map comp_def)
qed

text \<open>
  Claim C1. An OR prover built by \<^verbatim>\<open>OrProver.__init__\<close> for the chosen real child
  \<open>i\<close> holds one stored simulation for every other child, in child order. For every
  global challenge \<open>c\<close> for which the real subprover answers the residual challenge,
  \<^verbatim>\<open>compute_response\<close> returns a pair (subchallenges, responses) with one entry per
  child: position \<open>i\<close> holds the residual
  \<open>find_residual_chal [simulated subchallenges] c CHAL_LENGTH\<close> and the subprover's
  answer to it, every other position \<open>j\<close> holds the subchallenge and the responses of the
  simulation stored for child \<open>j\<close>, and the subchallenges sum to \<open>c\<close> modulo
  \<open>2 ^ CHAL_LENGTH\<close>.
\<close>

theorem OrProver_compute_response_split:
  assumes "OrProver_init L proof subprover r = Inr (prover, r')"
    and "chosen_idx proof = Some i"
    and "i < length (subproofs proof)"
  shows "\<exists>sims. prover = OrProver proof subprover i sims
     \<and> setup_simulations L proof i r = Inr (sims, r')
     \<and> length sims = length (subproofs proof) - 1
     \<and> (\<forall>c rs. compute_response L subprover
                   (find_residual_chal (map challenge sims) c CHAL_LENGTH) = Inr rs \<longrightarrow>
          (\<exists>chals resps. compute_response L prover c = Inr (OrResp chals resps)
             \<and> length chals = length (subproofs proof)
             \<and> length resps = length (subproofs proof)
             \<and> chals ! i = find_residual_chal (map challenge sims) c CHAL_LENGTH
             \<and> resps ! i = rs
             \<and> (\<forall>j<length (subproofs proof). j \<noteq> i \<longrightarrow>
                   chals ! j = challenge (sims ! (if j > i then j - 1 else j)) \<and>
                   resps ! j = responses (sims ! (if j > i then j - 1 else j)))
             \<and> sum_list chals mod 2 ^ CHAL_LENGTH = c mod 2 ^ CHAL_LENGTH))"
proof -
  from assms(1,2) obtain sims where
    sims: "setup_simulations L proof i r = Inr (sims, r')" and
    prover: "prover = OrProver proof subprover i sims"
    by (auto simp: OrProver_init_def split: sum.splits)
  have len: "length sims = length (subproofs proof) - 1"
    using thread_length [OF sims [unfolded setup_simulations_def]] assms(3)
    by (simp add: length_filter_neq_upt)
  have n: "length (subproofs proof) = Suc (length sims)"
    using len assms(3) by simp
  have i: "i \<le> length sims"
    using n assms(3) by simp
  have main: "\<exists>chals resps. compute_response L prover c = Inr (OrResp chals resps)
             \<and> length chals = length (subproofs proof)
             \<and> length resps = length (subproofs proof)
             \<and> chals ! i = find_residual_chal (map challenge sims) c CHAL_LENGTH
             \<and> resps ! i = rs
             \<and> (\<forall>j<length (subproofs proof). j \<noteq> i \<longrightarrow>
                   chals ! j = challenge (sims ! (if j > i then j - 1 else j)) \<and>
                   resps ! j = responses (sims ! (if j > i then j - 1 else j)))
             \<and> sum_list chals mod 2 ^ CHAL_LENGTH = c mod 2 ^ CHAL_LENGTH"
    if sub: "compute_response L subprover
               (find_residual_chal (map challenge sims) c CHAL_LENGTH) = Inr rs" for c rs
  proof -
    let ?res = "find_residual_chal (map challenge sims) c CHAL_LENGTH"
    let ?chals = "take i (map challenge sims) @ ?res # drop i (map challenge sims)"
    let ?resps = "take i (map responses sims) @ rs # drop i (map responses sims)"
    have cr: "compute_response L prover c = Inr (OrResp ?chals ?resps)"
      unfolding prover by (rule compute_response_or [OF assms(3) len sub])
    have lc: "length ?chals = length (subproofs proof)" "length ?resps = length (subproofs proof)"
      using i n by simp_all
    have at_i: "?chals ! i = ?res" "?resps ! i = rs"
      using i by (simp_all add: nth_append)
    have others: "?chals ! j = challenge (sims ! (if j > i then j - 1 else j)) \<and>
                  ?resps ! j = responses (sims ! (if j > i then j - 1 else j))"
      if j: "j < length (subproofs proof)" "j \<noteq> i" for j
    proof (cases "j < i")
      case True
      then show ?thesis using i by (simp add: nth_append)
    next
      case False
      with j obtain d where d: "j = Suc (i + d)"
        by (metis less_iff_Suc_add linorder_neqE_nat)
      then show ?thesis using i j n by (simp add: nth_append)
    qed
    have "sum_list (take i (map challenge sims)) + sum_list (drop i (map challenge sims))
        = sum_list (map challenge sims)"
      by (metis append_take_drop_id sum_list_append)
    then have "sum_list ?chals = sum_list (map challenge sims) + ?res"
      by simp
    then have sum: "sum_list ?chals mod 2 ^ CHAL_LENGTH = c mod 2 ^ CHAL_LENGTH"
      by (simp only: residual_sum)
    from cr lc at_i others sum show ?thesis
      by blast
  qed
  from prover sims len main show ?thesis
    by blast
qed

lemmas example_eval =
  example_ops_def example_leaf_def example_simulate_def chal_randbits_def next_rand_def
  CHAL_LENGTH_def find_residual_chal_def add_Bn_array_def list_get_def
  setup_simulations_def OrProver_init_def upt_rec Let_def

theorem OrProver_compute_response_split_witness:
  "\<exists>sims r'.
     OrProver_init example_ops
       (OrProof [Leaf (example_leaf [] []), Leaf (example_leaf [] []), Leaf (example_leaf [] [])]
          [] False (Some 1))
       (LeafProver ()) (\<lambda>n. n + 3)
     = Inr (OrProver
       (OrProof [Leaf (example_leaf [] []), Leaf (example_leaf [] []), Leaf (example_leaf [] [])]
          [] False (Some 1)) (LeafProver ()) 1 sims, r')
   \<and> map challenge sims = [3, 4]
   \<and> compute_response example_ops (OrProver
       (OrProof [Leaf (example_leaf [] []), Leaf (example_leaf [] []), Leaf (example_leaf [] [])]
          [] False (Some 1)) (LeafProver ()) 1 sims) 10
     = Inr (OrResp [3, 3 - 2 ^ 128, 4] [LeafResp [], LeafResp [3 - 2 ^ 128], LeafResp []])
   \<and> sum_list [3, 3 - 2 ^ 128, 4] mod 2 ^ CHAL_LENGTH = (10 :: int) mod 2 ^ CHAL_LENGTH"
proof -
  let ?P = "OrProof [Leaf (example_leaf [] []), Leaf (example_leaf [] []), Leaf (example_leaf [] [])]
          [] False (Some 1) :: unit Proof"
  obtain prover r' where init:
    "OrProver_init example_ops ?P (LeafProver ()) (\<lambda>n. n + 3) = Inr (prover, r')"
    by (simp add: example_eval)
  have ch: "chosen_idx ?P = Some 1" and lt: "1 < length (subproofs ?P)"
    by simp_all
  from OrProver_compute_response_split [OF init ch lt] obtain sims where
    p: "prover = OrProver ?P (LeafProver ()) 1 sims" and
    s: "setup_simulations example_ops ?P 1 (\<lambda>n. n + 3) = Inr (sims, r')"
    by blast
  let ?sims = "[\<lparr>commitment = LeafCom 3, challenge = 3, responses = LeafResp [],
                   precommitment = NoPrecom\<rparr>,
                \<lparr>commitment = LeafCom 4, challenge = 4, responses = LeafResp [],
                   precommitment = NoPrecom\<rparr>] :: int SimulationTranscript list"
  have "\<exists>r'. setup_simulations example_ops ?P 1 (\<lambda>n. n + 3) = Inr (?sims, r')"
    by (simp add: example_eval)
  with s have sims: "sims = ?sims"
    by auto
  have c: "map challenge sims = [3, 4]"
    unfolding sims by simp
  have cr: "compute_response example_ops (OrProver ?P (LeafProver ()) 1 sims) 10
     = Inr (OrResp [3, 3 - 2 ^ 128, 4] [LeafResp [], LeafResp [3 - 2 ^ 128], LeafResp []])"
    unfolding sims by (simp add: example_eval)
  have sm: "sum_list [3, 3 - 2 ^ 128, 4] mod 2 ^ CHAL_LENGTH = (10 :: int) mod 2 ^ CHAL_LENGTH"
    by (simp add: CHAL_LENGTH_def)
  from init p have "OrProver_init example_ops ?P (LeafProver ()) (\<lambda>n. n + 3)
      = Inr (OrProver ?P (LeafProver ()) 1 sims, r')"
    by simp
  with c cr sm show ?thesis
    by (intro exI [of _ sims] exI [of _ r'] conjI)
qed

section \<open>Absent provers\<close>

lemma alist_update_nonempty: "AList.update k v al \<noteq> []"
  by (cases al) auto

lemma dict_update_empty_iff: "dict_update d other = [] \<longleftrightarrow> d = [] \<and> other = []"
proof -
  have "fold (\<lambda>(k, v) acc. AList.update k v acc) other d \<noteq> []" if "other \<noteq> []" for d :: dict
    using that
  proof (induction other arbitrary: d rule: rev_induct)
    case Nil
    then show ?case by simp
  next
    case (snoc x xs)
    then show ?case by (cases x) (simp add: alist_update_nonempty)
  qed
  then show ?thesis
    by (cases "other = []") (auto simp: dict_update_def)
qed

text \<open>
  Claim C10. For an AND or OR node, \<^verbatim>\<open>get_prover\<close> returns \<^verbatim>\<open>None\<close> (and consumes no
  randomness) whenever the node's own simulation flag is set, and whenever the merged
  witness map (the node's recorded secret values updated with the caller's entries) is
  empty. Consequently \<^verbatim>\<open>prove\<close> on such a node produces no transcript: it calls
  \<^verbatim>\<open>get_NI_proof\<close> on \<^verbatim>\<open>None\<close>, which raises.
\<close>

theorem get_prover_absent:
  assumes "is_AndProof p \<or> is_OrProof p"
    and "simulation p \<or> dict_update (secret_values p) secrets_dict = []"
  shows "(\<exists>p'. get_prover L p secrets_dict r = Inr ((p', None), r))
    \<and> prove L get_NI_proof p secrets_dict message r = Inl AttributeError"
proof (cases p)
  case (Leaf lf)
  with assms(1) show ?thesis by simp
next
  case (AndProof ps vals sim)
  with assms(2) have "get_prover L p secrets_dict r =
      Inr ((AndProof ps (dict_update vals secrets_dict) sim, None), r)"
    by (auto simp: Let_def)
  then show ?thesis
    by (simp add: prove_def)
next
  case (OrProof ps vals sim ch)
  with assms(2) have "get_prover L p secrets_dict r =
      Inr ((OrProof ps (dict_update vals secrets_dict) sim ch, None), r)"
    by (auto simp: Let_def)
  then show ?thesis
    by (simp add: prove_def)
qed


theorem get_prover_absent_witness:
  "get_prover example_ops
       (AndProof [Leaf (example_leaf [x0] [g0]), Leaf (example_leaf [x1] [g0])] [] True)
       [(x0, 1), (x1, 2)] (\<lambda>n. n)
     = Inr ((AndProof [Leaf (example_leaf [x0] [g0]), Leaf (example_leaf [x1] [g0])]
               [(x0, 1), (x1, 2)] True, None), \<lambda>n. n)
   \<and> prove example_ops (\<lambda>p m r. Inr (m, r))
       (AndProof [Leaf (example_leaf [x0] [g0]), Leaf (example_leaf [x1] [g0])] [] True)
       [(x0, 1), (x1, 2)] ''m'' (\<lambda>n. n) = Inl AttributeError
   \<and> get_prover example_ops
       (OrProof [Leaf (example_leaf [x0] [g0]), Leaf (example_leaf [x1] [g0])] [] False None)
       [] (\<lambda>n. n)
     = Inr ((OrProof [Leaf (example_leaf [x0] [g0]), Leaf (example_leaf [x1] [g0])] [] False None,
             None), \<lambda>n. n)
   \<and> prove example_ops (\<lambda>p m r. Inr (m, r))
       (OrProof [Leaf (example_leaf [x0] [g0]), Leaf (example_leaf [x1] [g0])] [] False None)
       [] ''m'' (\<lambda>n. n) = Inl AttributeError"
  using
    get_prover_absent [of "AndProof [Leaf (example_leaf [x0] [g0]), Leaf (example_leaf [x1] [g0])] [] True"
      "[(x0, 1), (x1, 2)]" example_ops "\<lambda>n. n" "\<lambda>p m r. Inr (m, r)" "''m''"]
    get_prover_absent [of "OrProof [Leaf (example_leaf [x0] [g0]), Leaf (example_leaf [x1] [g0])] [] False None"
      "[]" example_ops "\<lambda>n. n" "\<lambda>p m r. Inr (m, r)" "''m''"]
  by (simp add: dict_update_def x0_def x1_def)

section \<open>The statement check of the AND verifier\<close>

lemma send_challenge_mute:
  "send_challenge L self msg True r =
     (self\<lparr>av_commitment := Some msg, av_challenge := Some (fst (chal_randbits CHAL_LENGTH r))\<rparr>,
      Inr (fst (chal_randbits CHAL_LENGTH r)), snd (chal_randbits CHAL_LENGTH r))"
  by (simp add: send_challenge_def split: prod.splits)

text \<open>
  Claim C7. An AND verifier that is not muted unpacks what it receives as the pair
  (statement hash, commitments); when the verifier's own expression has the prehash \<open>d\<close>
  and the received hash differs from \<open>d\<close>, \<^verbatim>\<open>send_challenge\<close> raises StatementMismatch;
  when the received hash is \<open>d\<close>, it stores the commitments and returns a fresh challenge.
  A muted verifier stores what it receives as it is and returns a fresh challenge, whatever
  the statement is: the outcome does not depend on the verifier's expression.
\<close>

theorem send_challenge_statement_check:
  "(prehash_statement L (av_proof self) = Inr d \<and> statement \<noteq> d \<longrightarrow>
      fst (snd (send_challenge L self (WithStatement statement com) False r)) = Inl StatementMismatch)
   \<and> (prehash_statement L (av_proof self) = Inr d \<longrightarrow>
      send_challenge L self (WithStatement d com) False r =
        (self\<lparr>av_commitment := Some (Bare com),
               av_challenge := Some (fst (chal_randbits CHAL_LENGTH r))\<rparr>,
         Inr (fst (chal_randbits CHAL_LENGTH r)), snd (chal_randbits CHAL_LENGTH r)))
   \<and> send_challenge L self msg True r =
        (self\<lparr>av_commitment := Some msg,
               av_challenge := Some (fst (chal_randbits CHAL_LENGTH r))\<rparr>,
         Inr (fst (chal_randbits CHAL_LENGTH r)), snd (chal_randbits CHAL_LENGTH r))
   \<and> fst (snd (send_challenge L (self\<lparr>av_proof := other\<rparr>) msg True r)) =
       fst (snd (send_challenge L self msg True r))"
  by (auto simp: send_challenge_mute)
     (auto simp: send_challenge_def check_statement_def Let_def split: prod.splits)

theorem send_challenge_statement_check_witness:
  "prehash_statement example_ops (av_proof example_verifier) = Inr ''E''
   \<and> fst (snd (send_challenge example_ops example_verifier
        (WithStatement ''bad'' (ListCom [LeafCom 1, LeafCom 2])) False (\<lambda>n. n + 5)))
      = Inl StatementMismatch
   \<and> fst (snd (send_challenge example_ops example_verifier
        (WithStatement ''E'' (ListCom [LeafCom 1, LeafCom 2])) False (\<lambda>n. n + 5)))
      = Inr 5
   \<and> fst (snd (send_challenge example_ops example_verifier
        (WithStatement ''bad'' (ListCom [LeafCom 1, LeafCom 2])) True (\<lambda>n. n + 5)))
      = Inr 5
   \<and> av_commitment (fst (send_challenge example_ops example_verifier
        (WithStatement ''bad'' (ListCom [LeafCom 1, LeafCom 2])) True (\<lambda>n. n + 5)))
      = Some (WithStatement ''bad'' (ListCom [LeafCom 1, LeafCom 2]))"
proof -
  have pre: "prehash_statement example_ops (av_proof example_verifier) = Inr ''E''"
    by (simp add: prehash_statement_def ec_encode_def list_get_def example_verifier_def
          example_ops_def example_leaf_def g0_def)
  have ch: "fst (chal_randbits CHAL_LENGTH (\<lambda>n. n + 5)) = 5"
    by (simp add: chal_randbits_def next_rand_def CHAL_LENGTH_def)
  have ne: "''bad'' \<noteq> ''E''"
    by simp
  note t1 = send_challenge_statement_check [of example_ops example_verifier "''E''" "''bad''"
      "ListCom [LeafCom 1, LeafCom 2]" "\<lambda>n. n + 5"
      "WithStatement ''bad'' (ListCom [LeafCom 1, LeafCom 2])" "av_proof example_verifier"]
  from t1 pre ne ch show ?thesis
    by simp
qed

section \<open>Flattening by the infix operators\<close>

lemma AndProof_init_Inr:
  "AndProof_init sps = Inr n \<Longrightarrow> n = AndProof sps (known_secret_values (get_secret_vars sps)) False"
  by (auto simp: AndProof_init_def Let_def split: if_splits sum.splits)

lemma OrProof_init_Inr:
  "OrProof_init sps = Inr n \<Longrightarrow> n = OrProof sps (known_secret_values (get_secret_vars sps)) False None"
  by (auto simp: OrProof_init_def split: if_splits sum.splits)

lemma Proof_and_splice: "Proof_and a b = AndProof_init (and_children a @ and_children b)"
  by (simp add: Proof_and_def and_children_def)

lemma Proof_or_splice: "Proof_or a b = OrProof_init (or_children a @ or_children b)"
  by (simp add: Proof_or_def or_children_def)

text \<open>
  Claim C8, as amended. The infix operators splice the children of every operand of their
  own kind: when \<open>a & b\<close> is built, \<open>(a & b) & c\<close> is the AND node constructed from the
  children of \<open>a\<close>, of \<open>b\<close> and of \<open>c\<close>, where an operand that is not an AND node
  counts as its own single child, and its descriptor lists the descriptors of these
  children. In particular, for operands none of which is an AND node, \<open>(a & b) & c\<close> is
  the node the constructor builds from \<open>a\<close>, \<open>b\<close>, \<open>c\<close>. Likewise for OR. The
  constructors themselves do not flatten.
\<close>

theorem infix_flattening:
  "(Proof_and a b = Inr ab \<longrightarrow>
      Proof_and ab c = AndProof_init (and_children a @ and_children b @ and_children c)
      \<and> (\<forall>abc. Proof_and ab c = Inr abc \<longrightarrow>
            get_proof_id L abc =
              CompId ''And'' (map (get_proof_id L) (and_children a @ and_children b @ and_children c)))
      \<and> (\<not> is_AndProof a \<and> \<not> is_AndProof b \<and> \<not> is_AndProof c \<longrightarrow>
            Proof_and ab c = AndProof_init [a, b, c]))
   \<and> (Proof_or a b = Inr ab' \<longrightarrow>
      Proof_or ab' c = OrProof_init (or_children a @ or_children b @ or_children c)
      \<and> (\<forall>abc. Proof_or ab' c = Inr abc \<longrightarrow>
            get_proof_id L abc =
              CompId ''Or'' (map (get_proof_id L) (or_children a @ or_children b @ or_children c)))
      \<and> (\<not> is_OrProof a \<and> \<not> is_OrProof b \<and> \<not> is_OrProof c \<longrightarrow>
            Proof_or ab' c = OrProof_init [a, b, c]))"
proof (intro conjI impI)
  assume ab: "Proof_and a b = Inr ab"
  then have ab_eq: "and_children ab = and_children a @ and_children b"
    unfolding Proof_and_splice by (auto dest!: AndProof_init_Inr simp: and_children_def)
  show s: "Proof_and ab c = AndProof_init (and_children a @ and_children b @ and_children c)"
    by (simp add: Proof_and_splice ab_eq)
  show "\<forall>abc. Proof_and ab c = Inr abc \<longrightarrow>
            get_proof_id L abc =
              CompId ''And'' (map (get_proof_id L) (and_children a @ and_children b @ and_children c))"
    unfolding s by (auto dest!: AndProof_init_Inr)
  assume "\<not> is_AndProof a \<and> \<not> is_AndProof b \<and> \<not> is_AndProof c"
  then show "Proof_and ab c = AndProof_init [a, b, c]"
    unfolding s by (simp add: and_children_def)
next
  assume ab: "Proof_or a b = Inr ab'"
  then have ab_eq: "or_children ab' = or_children a @ or_children b"
    unfolding Proof_or_splice by (auto dest!: OrProof_init_Inr simp: or_children_def)
  show s: "Proof_or ab' c = OrProof_init (or_children a @ or_children b @ or_children c)"
    by (simp add: Proof_or_splice ab_eq)
  show "\<forall>abc. Proof_or ab' c = Inr abc \<longrightarrow>
            get_proof_id L abc =
              CompId ''Or'' (map (get_proof_id L) (or_children a @ or_children b @ or_children c))"
    unfolding s by (auto dest!: OrProof_init_Inr)
  assume "\<not> is_OrProof a \<and> \<not> is_OrProof b \<and> \<not> is_OrProof c"
  then show "Proof_or ab' c = OrProof_init [a, b, c]"
    unfolding s by (simp add: or_children_def)
qed

lemmas construct_eval =
  AndProof_init_def OrProof_init_def Proof_and_def Proof_or_def check_groups_def
  get_secret_vars_def get_generators_def known_secret_values_def example_leaf_def
  x0_def x1_def x2_def g0_def Let_def

theorem infix_flattening_witness:
  "get_proof_id example_ops
     (projr (Proof_and (projr (Proof_and (Leaf (example_leaf [x0] [g0])) (Leaf (example_leaf [x1] [g0]))))
        (Leaf (example_leaf [x2] [g0]))))
   = get_proof_id example_ops
     (projr (AndProof_init [Leaf (example_leaf [x0] [g0]), Leaf (example_leaf [x1] [g0]),
        Leaf (example_leaf [x2] [g0])]))
   \<and> get_proof_id example_ops
     (projr (Proof_or (projr (Proof_or (Leaf (example_leaf [x0] [g0])) (Leaf (example_leaf [x1] [g0]))))
        (Leaf (example_leaf [x2] [g0]))))
   = CompId ''Or'' [LeafId 1, LeafId 1, LeafId 1]"
proof -
  let ?a = "Leaf (example_leaf [x0] [g0]) :: unit Proof"
  let ?b = "Leaf (example_leaf [x1] [g0]) :: unit Proof"
  let ?c = "Leaf (example_leaf [x2] [g0]) :: unit Proof"
  show ?thesis
    using infix_flattening [of ?a ?b "AndProof [?a, ?b] [] False" ?c example_ops
      "OrProof [?a, ?b] [] False None"]
    by (simp add: construct_eval example_ops_def and_children_def or_children_def)
qed

text \<open>
  Claim C8 as stated fails under both readings of \<open>AND(AND(a, b), c)\<close>. The constructor
  does not flatten: the node built from the AND of two leaves and a third leaf has another
  descriptor than the node built from the three leaves. The infix operator flattens, but
  it also splices the children of an operand \<open>c\<close> that is itself an AND, so that
  \<open>(a & b) & c\<close> has another descriptor than the node built from \<open>a\<close>, \<open>b\<close> and \<open>c\<close>.
\<close>

theorem flattening_counterexample:
  "AndProof_init [Leaf (example_leaf [x0] [g0]), Leaf (example_leaf [x1] [g0])]
     = Inr (AndProof [Leaf (example_leaf [x0] [g0]), Leaf (example_leaf [x1] [g0])] [] False)
   \<and> get_proof_id example_ops
       (projr (AndProof_init
          [AndProof [Leaf (example_leaf [x0] [g0]), Leaf (example_leaf [x1] [g0])] [] False,
           Leaf (example_leaf [x2] [g0])]))
     \<noteq> get_proof_id example_ops
       (projr (AndProof_init [Leaf (example_leaf [x0] [g0]), Leaf (example_leaf [x1] [g0]),
          Leaf (example_leaf [x2] [g0])]))
   \<and> get_proof_id example_ops
       (projr (Proof_and
          (AndProof [Leaf (example_leaf [x0] [g0]), Leaf (example_leaf [x1] [g0])] [] False)
          (AndProof [Leaf (example_leaf [x2] [g0]), Leaf (example_leaf [] [])] [] False)))
     \<noteq> get_proof_id example_ops
       (projr (AndProof_init [Leaf (example_leaf [x0] [g0]), Leaf (example_leaf [x1] [g0]),
          AndProof [Leaf (example_leaf [x2] [g0]), Leaf (example_leaf [] [])] [] False]))"
  by (simp add: construct_eval example_ops_def)

section \<open>Detection of the OR flaw\<close>

lemma collect_Inl_mem: "collect xs = Inl e \<Longrightarrow> Inl e \<in> set xs"
  using collect_Inl_first [of xs e] by (metis nth_mem)

lemma Inl_notin_map_Inr: "Inl e \<notin> set (map Inr ys)"
  by auto

lemma collect_cases: "(\<exists>ys. xs = map Inr ys) \<or> (\<exists>e. collect xs = Inl e)"
proof (cases "collect xs")
  case (Inl e)
  then show ?thesis by blast
next
  case (Inr ys)
  then show ?thesis by (simp add: collect_Inr_iff)
qed

lemma check_or_flaw_Some:
  "check_or_flaw p (Some f) = Inl e \<longleftrightarrow>
     e = OrFlaw \<and> (\<exists>orp \<in> set (top_ors p). \<exists>s \<in> set (secret_vars orp).
                     count_list (secret_vars orp) s < count_list f s)"
proof (induction p arbitrary: e)
  case (Leaf lf)
  show ?case by simp
next
  case (OrProof ps vals sim ch)
  show ?case by auto
next
  case (AndProof ps vals sim)
  let ?rs = "map (\<lambda>subp. check_or_flaw subp (Some f)) ps"
  have unfold: "check_or_flaw (AndProof ps vals sim) (Some f) = Inl e \<longleftrightarrow> collect ?rs = Inl e"
    by (simp split: sum.splits)
  show ?case
  proof
    assume "check_or_flaw (AndProof ps vals sim) (Some f) = Inl e"
    then have "Inl e \<in> set ?rs"
      unfolding unfold by (rule collect_Inl_mem)
    then obtain subp where "subp \<in> set ps" "check_or_flaw subp (Some f) = Inl e"
      by auto
    then show "e = OrFlaw \<and> (\<exists>orp \<in> set (top_ors (AndProof ps vals sim)).
        \<exists>s \<in> set (secret_vars orp). count_list (secret_vars orp) s < count_list f s)"
      using AndProof.IH by fastforce
  next
    assume r: "e = OrFlaw \<and> (\<exists>orp \<in> set (top_ors (AndProof ps vals sim)).
        \<exists>s \<in> set (secret_vars orp). count_list (secret_vars orp) s < count_list f s)"
    then obtain subp where subp: "subp \<in> set ps" "check_or_flaw subp (Some f) = Inl OrFlaw"
      using AndProof.IH by fastforce
    then have "Inl OrFlaw \<in> set ?rs"
      by force
    then have "\<not> (\<exists>ys. ?rs = map Inr ys)"
      by (metis Inl_notin_map_Inr)
    then obtain e' where e': "collect ?rs = Inl e'"
      using collect_cases [of ?rs] by blast
    then have "Inl e' \<in> set ?rs"
      by (rule collect_Inl_mem)
    then have "e' = OrFlaw"
      using AndProof.IH by fastforce
    with e' r show "check_or_flaw (AndProof ps vals sim) (Some f) = Inl e"
      unfolding unfold by simp
  qed
qed

lemma check_groups_error: "check_groups svs gens = Inl e \<Longrightarrow> e = GroupMismatch"
  by (simp add: check_groups_def split: if_splits)

text \<open>
  Claim C3, as amended. Constructing an AND node from at least two children whose group
  check passes raises OrFlaw exactly when, for some OR node reached from the new node
  through AND nodes only and some secret occurring in that OR, the secret occurs more often
  in the AND's full secret bag than in that OR's bag. OR nodes nested inside another OR are
  not examined. With fewer than two children or a failing group check another exception
  is raised first. Constructing an OR node never raises OrFlaw.
\<close>

theorem AndProof_init_OrFlaw_iff:
  "(AndProof_init sps = Inl OrFlaw \<longleftrightarrow>
      2 \<le> length sps
      \<and> check_groups (get_secret_vars sps) (get_generators sps) = Inr ()
      \<and> (\<exists>orp \<in> set (concat (map top_ors sps)). \<exists>s \<in> set (secret_vars orp).
            count_list (secret_vars orp) s < count_list (get_secret_vars sps) s))
   \<and> OrProof_init sps \<noteq> Inl OrFlaw"
proof
  let ?vals = "known_secret_values (get_secret_vars sps)"
  have none: "check_or_flaw (AndProof sps ?vals False) None =
      check_or_flaw (AndProof sps ?vals False) (Some (get_secret_vars sps))"
    by (simp add: get_secret_vars_def)
  show "AndProof_init sps = Inl OrFlaw \<longleftrightarrow>
      2 \<le> length sps
      \<and> check_groups (get_secret_vars sps) (get_generators sps) = Inr ()
      \<and> (\<exists>orp \<in> set (concat (map top_ors sps)). \<exists>s \<in> set (secret_vars orp).
            count_list (secret_vars orp) s < count_list (get_secret_vars sps) s)"
  proof (cases "length sps < 2")
    case True
    then show ?thesis by (simp add: AndProof_init_def)
  next
    case False
    show ?thesis
    proof (cases "check_groups (get_secret_vars sps) (get_generators sps)")
      case (Inl e)
      then have "e = GroupMismatch" by (rule check_groups_error)
      with Inl False show ?thesis by (simp add: AndProof_init_def)
    next
      case (Inr u)
      have "AndProof_init sps = Inl OrFlaw \<longleftrightarrow>
          check_or_flaw (AndProof sps ?vals False) (Some (get_secret_vars sps)) = Inl OrFlaw"
        using False Inr unfolding AndProof_init_def Let_def none
        by (simp split: sum.splits)
      with False Inr show ?thesis
        unfolding check_or_flaw_Some by simp
    qed
  qed
  show "OrProof_init sps \<noteq> Inl OrFlaw"
    by (auto simp: OrProof_init_def split: sum.splits dest: check_groups_error)
qed

theorem AndProof_init_OrFlaw_iff_witness:
  "AndProof_init [Leaf (example_leaf [x0] [g0]),
       OrProof [Leaf (example_leaf [x0] [g0]), Leaf (example_leaf [x1] [g0])] [] False None]
     = Inl OrFlaw
   \<and> AndProof_init [Leaf (example_leaf [x2] [g0]),
       OrProof [Leaf (example_leaf [x0] [g0]), Leaf (example_leaf [x1] [g0])] [] False None]
     = Inr (AndProof [Leaf (example_leaf [x2] [g0]),
       OrProof [Leaf (example_leaf [x0] [g0]), Leaf (example_leaf [x1] [g0])] [] False None]
       [] False)
   \<and> OrProof_init [Leaf (example_leaf [x0] [g0]),
       OrProof [Leaf (example_leaf [x0] [g0]), Leaf (example_leaf [x1] [g0])] [] False None]
     \<noteq> Inl OrFlaw"
  using
    AndProof_init_OrFlaw_iff [of "[Leaf (example_leaf [x0] [g0]),
       OrProof [Leaf (example_leaf [x0] [g0]), Leaf (example_leaf [x1] [g0])] [] False None]"]
  by (simp add: construct_eval)

text \<open>
  Claim C3 as stated fails for an OR nested inside another OR. In
  \<open>AND(L2, OR(L0, OR(L0', L1)))\<close> the secret \<open>x0\<close> of the leaves \<open>L0\<close> and \<open>L0'\<close> occurs twice
  in the AND's bag and once in the bag of the inner OR, which is an OR node of the AND's
  subtree; the construction of the AND succeeds nevertheless, since only the outer OR is
  examined, where \<open>x0\<close> occurs twice as well.
\<close>

theorem AndProof_init_nested_or_counterexample:
  "OrProof_init [Leaf (example_leaf [x0] [g0]), Leaf (example_leaf [x1] [g0])]
     = Inr (OrProof [Leaf (example_leaf [x0] [g0]), Leaf (example_leaf [x1] [g0])] [] False None)
   \<and> OrProof_init [Leaf (example_leaf [x0] [g0]),
        OrProof [Leaf (example_leaf [x0] [g0]), Leaf (example_leaf [x1] [g0])] [] False None]
     = Inr (OrProof [Leaf (example_leaf [x0] [g0]),
        OrProof [Leaf (example_leaf [x0] [g0]), Leaf (example_leaf [x1] [g0])] [] False None]
        [] False None)
   \<and> OrProof [Leaf (example_leaf [x0] [g0]), Leaf (example_leaf [x1] [g0])] [] False None
     \<in> set (all_ors (AndProof [Leaf (example_leaf [x2] [g0]),
        OrProof [Leaf (example_leaf [x0] [g0]),
          OrProof [Leaf (example_leaf [x0] [g0]), Leaf (example_leaf [x1] [g0])] [] False None]
          [] False None] [] False))
   \<and> x0 \<in> set (secret_vars
        (OrProof [Leaf (example_leaf [x0] [g0]), Leaf (example_leaf [x1] [g0])] [] False None))
   \<and> count_list (secret_vars
        (OrProof [Leaf (example_leaf [x0] [g0]), Leaf (example_leaf [x1] [g0])] [] False None)) x0
     < count_list (get_secret_vars [Leaf (example_leaf [x2] [g0]),
        OrProof [Leaf (example_leaf [x0] [g0]),
          OrProof [Leaf (example_leaf [x0] [g0]), Leaf (example_leaf [x1] [g0])] [] False None]
          [] False None]) x0
   \<and> AndProof_init [Leaf (example_leaf [x2] [g0]),
        OrProof [Leaf (example_leaf [x0] [g0]),
          OrProof [Leaf (example_leaf [x0] [g0]), Leaf (example_leaf [x1] [g0])] [] False None]
          [] False None]
     = Inr (AndProof [Leaf (example_leaf [x2] [g0]),
        OrProof [Leaf (example_leaf [x0] [g0]),
          OrProof [Leaf (example_leaf [x0] [g0]), Leaf (example_leaf [x1] [g0])] [] False None]
          [] False None] [] False)"
  by (simp add: construct_eval)

section \<open>The AND prover\<close>

lemma thread_Inr_iff:
  "thread f xs r = Inr (ys, r') \<longleftrightarrow>
     (\<exists>rs. length rs = Suc (length xs) \<and> rs ! 0 = r \<and> rs ! length xs = r'
        \<and> length ys = length xs
        \<and> (\<forall>k<length xs. f (xs ! k) (rs ! k) = Inr (ys ! k, rs ! Suc k)))"
proof (induction xs arbitrary: ys r)
  case Nil
  show ?case
  proof
    assume "thread f [] r = Inr (ys, r')"
    then show "\<exists>rs. length rs = Suc (length []) \<and> rs ! 0 = r \<and> rs ! length [] = r'
        \<and> length ys = length []
        \<and> (\<forall>k<length []. f ([] ! k) (rs ! k) = Inr (ys ! k, rs ! Suc k))"
      by (intro exI [of _ "[r]"]) auto
  next
    assume "\<exists>rs. length rs = Suc (length []) \<and> rs ! 0 = r \<and> rs ! length [] = r'
        \<and> length ys = length []
        \<and> (\<forall>k<length []. f ([] ! k) (rs ! k) = Inr (ys ! k, rs ! Suc k))"
    then show "thread f [] r = Inr (ys, r')"
      by auto
  qed
next
  case (Cons x xs)
  show ?case
  proof
    assume a: "thread f (x # xs) r = Inr (ys, r')"
    then obtain y r1 ys' where
      fx: "f x r = Inr (y, r1)" and t: "thread f xs r1 = Inr (ys', r')" and ys: "ys = y # ys'"
      by (auto split: sum.splits prod.splits)
    from t obtain rs where rs: "length rs = Suc (length xs)" "rs ! 0 = r1" "rs ! length xs = r'"
      "length ys' = length xs" "\<forall>k<length xs. f (xs ! k) (rs ! k) = Inr (ys' ! k, rs ! Suc k)"
      unfolding Cons.IH by blast
    have "\<forall>k<length (x # xs). f ((x # xs) ! k) ((r # rs) ! k) = Inr (ys ! k, (r # rs) ! Suc k)"
    proof (intro allI impI)
      fix k
      assume "k < length (x # xs)"
      then show "f ((x # xs) ! k) ((r # rs) ! k) = Inr (ys ! k, (r # rs) ! Suc k)"
        using fx rs ys by (cases k) simp_all
    qed
    with rs ys show "\<exists>rs. length rs = Suc (length (x # xs)) \<and> rs ! 0 = r
        \<and> rs ! length (x # xs) = r' \<and> length ys = length (x # xs)
        \<and> (\<forall>k<length (x # xs). f ((x # xs) ! k) (rs ! k) = Inr (ys ! k, rs ! Suc k))"
      by (intro exI [of _ "r # rs"]) simp
  next
    assume "\<exists>rs. length rs = Suc (length (x # xs)) \<and> rs ! 0 = r
        \<and> rs ! length (x # xs) = r' \<and> length ys = length (x # xs)
        \<and> (\<forall>k<length (x # xs). f ((x # xs) ! k) (rs ! k) = Inr (ys ! k, rs ! Suc k))"
    then obtain rs where rs: "length rs = Suc (Suc (length xs))" "rs ! 0 = r"
      "rs ! Suc (length xs) = r'" "length ys = Suc (length xs)"
      and all: "\<forall>k<Suc (length xs). f ((x # xs) ! k) (rs ! k) = Inr (ys ! k, rs ! Suc k)"
      by auto
    from rs obtain r0 rs' where rs': "rs = r0 # rs'"
      by (cases rs) auto
    from rs obtain y ys' where ys': "ys = y # ys'"
      by (cases ys) auto
    from all have "f ((x # xs) ! 0) (rs ! 0) = Inr (ys ! 0, rs ! Suc 0)"
      by blast
    then have fx: "f x r = Inr (y, rs' ! 0)"
      using rs rs' ys' by simp
    have "\<forall>k<length xs. f (xs ! k) (rs' ! k) = Inr (ys' ! k, rs' ! Suc k)"
    proof (intro allI impI)
      fix k
      assume "k < length xs"
      then have "f ((x # xs) ! Suc k) (rs ! Suc k) = Inr (ys ! Suc k, rs ! Suc (Suc k))"
        using all by (metis Suc_less_eq)
      then show "f (xs ! k) (rs' ! k) = Inr (ys' ! k, rs' ! Suc k)"
        using rs' ys' by simp
    qed
    then have "thread f xs (rs' ! 0) = Inr (ys', r')"
      unfolding Cons.IH using rs rs' ys' by (intro exI [of _ rs']) simp
    with fx ys' show "thread f (x # xs) r = Inr (ys, r')"
      by simp
  qed
qed

lemma alist_update_fresh: "k \<notin> fst ` set al \<Longrightarrow> AList.update k v al = al @ [(k, v)]"
  by (induction al) auto

lemma secrets_for_prover_fold:
  "distinct (map fst (acc @ d)) \<Longrightarrow>
   fold (\<lambda>(s_name, v) acc. if s_name \<in> set keys then AList.update s_name v acc else acc) d acc
     = acc @ filter (\<lambda>(s_name, v). s_name \<in> set keys) d"
proof (induction d arbitrary: acc)
  case Nil
  show ?case by simp
next
  case (Cons kv d)
  obtain k v where kv: "kv = (k, v)" by (cases kv)
  have fresh: "k \<notin> fst ` set acc"
    using Cons.prems kv by auto
  show ?case
  proof (cases "k \<in> set keys")
    case True
    have "distinct (map fst ((acc @ [(k, v)]) @ d))"
      using Cons.prems kv by simp
    from Cons.IH [OF this] True kv fresh show ?thesis
      by (simp add: alist_update_fresh)
  next
    case False
    have "distinct (map fst (acc @ d))"
      using Cons.prems kv by simp
    from Cons.IH [OF this] False kv show ?thesis
      by simp
  qed
qed

lemma secrets_for_prover_filter:
  "distinct (map fst d) \<Longrightarrow>
   secrets_for_prover keys d = filter (\<lambda>(s_name, v). s_name \<in> set keys) d"
  using secrets_for_prover_fold [of "[]" d keys] by (simp add: secrets_for_prover_def)

lemma distinct_dict_update:
  "distinct (map fst d) \<Longrightarrow> distinct (map fst (dict_update d other))"
  unfolding dict_update_def
  by (induction other arbitrary: d) (auto simp: distinct_update)

text \<open>
  Claim C5, as amended. \<^verbatim>\<open>get_prover\<close> on an AND node first merges the caller's
  witness map into the recorded secret values of the node. When the simulation flag of the
  node is set or the merged map is empty, it returns \<^verbatim>\<open>None\<close> and consults no child.
  Otherwise it returns exactly when every child's \<^verbatim>\<open>get_prover\<close> returns, the children
  being consulted in order, each with the entries of the merged map whose keys are among
  that child's secret variables and with no other entry. It then returns \<^verbatim>\<open>None\<close> when
  some child returned \<^verbatim>\<open>None\<close>, and otherwise an AND prover holding one child prover per
  child, in order.
\<close>

theorem AndProof_get_prover_spec:
  assumes "distinct (map fst vals)"
  shows "(sim \<or> dict_update vals secrets_dict = [] \<longrightarrow>
      get_prover L (AndProof ps vals sim) secrets_dict r
        = Inr ((AndProof ps (dict_update vals secrets_dict) sim, None), r))
   \<and> (\<not> sim \<and> dict_update vals secrets_dict \<noteq> [] \<longrightarrow>
     (get_prover L (AndProof ps vals sim) secrets_dict r = Inr ((p', res), r') \<longleftrightarrow>
     (\<exists>results rs.
        length results = length ps \<and> length rs = Suc (length ps) \<and> rs ! 0 = r
        \<and> rs ! length ps = r'
        \<and> (\<forall>k<length ps.
              sub_proof_prover L (ps ! k) (dict_update vals secrets_dict) (rs ! k)
                = Inr (results ! k, rs ! Suc k)
              \<and> sub_proof_prover L (ps ! k) (dict_update vals secrets_dict) (rs ! k)
                = get_prover L (ps ! k)
                    (filter (\<lambda>(s_name, v). s_name \<in> set (secret_vars (ps ! k)))
                       (dict_update vals secrets_dict)) (rs ! k))
        \<and> p' = AndProof (map fst results) (dict_update vals secrets_dict) sim
        \<and> res = (if None \<in> set (map snd results) then None
                  else Some (AndProver p' (map (\<lambda>x. the (snd x)) results))))))"
proof (intro conjI impI)
  assume "sim \<or> dict_update vals secrets_dict = []"
  then show "get_prover L (AndProof ps vals sim) secrets_dict r
        = Inr ((AndProof ps (dict_update vals secrets_dict) sim, None), r)"
    by (auto simp: Let_def)
next
  assume guard: "\<not> sim \<and> dict_update vals secrets_dict \<noteq> []"
  let ?d = "dict_update vals secrets_dict"
  let ?f = "\<lambda>sub_proof. get_prover L sub_proof (secrets_for_prover (secret_vars sub_proof) ?d)"
  have dist: "distinct (map fst ?d)"
    using assms by (rule distinct_dict_update)
  have sub: "sub_proof_prover L q ?d s =
      get_prover L q (filter (\<lambda>(s_name, v). s_name \<in> set (secret_vars q)) ?d) s" for q s
    by (simp add: sub_proof_prover_def secrets_for_prover_filter [OF dist])
  have f: "?f q s = sub_proof_prover L q ?d s" for q s
    by (simp add: sub_proof_prover_def)
  have sF: "sim = False"
    using guard by simp
  have ne: "?d \<noteq> []"
    using guard by simp
  have unfold: "get_prover L (AndProof ps vals sim) secrets_dict r =
      (case thread ?f ps r of
         Inl e \<Rightarrow> Inl e
       | Inr (results, r') \<Rightarrow>
           (let self = AndProof (map fst results) ?d sim; subs = map snd results
            in if None \<in> set subs then Inr ((self, None), r')
               else Inr ((self, Some (AndProver self (map the subs))), r')))"
    unfolding sF using ne by (simp add: Let_def)
  have "get_prover L (AndProof ps vals sim) secrets_dict r = Inr ((p', res), r') \<longleftrightarrow>
      (\<exists>results. thread ?f ps r = Inr (results, r')
         \<and> p' = AndProof (map fst results) ?d sim
         \<and> res = (if None \<in> set (map snd results) then None
                   else Some (AndProver p' (map (\<lambda>x. the (snd x)) results))))"
    unfolding unfold by (auto simp: Let_def comp_def split: sum.splits)
  also have "\<dots> \<longleftrightarrow>
     (\<exists>results rs.
        length results = length ps \<and> length rs = Suc (length ps) \<and> rs ! 0 = r
        \<and> rs ! length ps = r'
        \<and> (\<forall>k<length ps.
              sub_proof_prover L (ps ! k) ?d (rs ! k) = Inr (results ! k, rs ! Suc k)
              \<and> sub_proof_prover L (ps ! k) ?d (rs ! k)
                = get_prover L (ps ! k)
                    (filter (\<lambda>(s_name, v). s_name \<in> set (secret_vars (ps ! k))) ?d) (rs ! k))
        \<and> p' = AndProof (map fst results) ?d sim
        \<and> res = (if None \<in> set (map snd results) then None
                  else Some (AndProver p' (map (\<lambda>x. the (snd x)) results))))"
    unfolding thread_Inr_iff f using sub by blast
  finally show "get_prover L (AndProof ps vals sim) secrets_dict r = Inr ((p', res), r') \<longleftrightarrow>
     (\<exists>results rs.
        length results = length ps \<and> length rs = Suc (length ps) \<and> rs ! 0 = r
        \<and> rs ! length ps = r'
        \<and> (\<forall>k<length ps.
              sub_proof_prover L (ps ! k) (dict_update vals secrets_dict) (rs ! k)
                = Inr (results ! k, rs ! Suc k)
              \<and> sub_proof_prover L (ps ! k) (dict_update vals secrets_dict) (rs ! k)
                = get_prover L (ps ! k)
                    (filter (\<lambda>(s_name, v). s_name \<in> set (secret_vars (ps ! k)))
                       (dict_update vals secrets_dict)) (rs ! k))
        \<and> p' = AndProof (map fst results) (dict_update vals secrets_dict) sim
        \<and> res = (if None \<in> set (map snd results) then None
                  else Some (AndProver p' (map (\<lambda>x. the (snd x)) results))))" .
qed

lemmas prover_eval =
  example_ops_def example_leaf_def dict_update_def secrets_for_prover_def sub_proof_prover_def
  x0_def x1_def x2_def g0_def Let_def

theorem AndProof_get_prover_spec_witness:
  "get_prover example_ops
      (AndProof [Leaf (example_leaf [x0] [g0]), Leaf (example_leaf [x1] [g0])] [] False)
      [(x0, 1), (x1, 2), (x2, 3)] (\<lambda>n. n)
    = Inr ((AndProof [Leaf ((example_leaf [x0] [g0])\<lparr>lf_secret_values := [(x0, 1)]\<rparr>),
                      Leaf ((example_leaf [x1] [g0])\<lparr>lf_secret_values := [(x1, 2)]\<rparr>)]
              [(x0, 1), (x1, 2), (x2, 3)] False,
            Some (AndProver
              (AndProof [Leaf ((example_leaf [x0] [g0])\<lparr>lf_secret_values := [(x0, 1)]\<rparr>),
                         Leaf ((example_leaf [x1] [g0])\<lparr>lf_secret_values := [(x1, 2)]\<rparr>)]
                 [(x0, 1), (x1, 2), (x2, 3)] False)
              [LeafProver (), LeafProver ()])), \<lambda>n. n)
   \<and> get_prover example_ops
      (AndProof [Leaf (example_leaf [x0] [g0]), Leaf (example_leaf [x1] [g0])] [] False)
      [(x0, 1)] (\<lambda>n. n)
    = Inr ((AndProof [Leaf ((example_leaf [x0] [g0])\<lparr>lf_secret_values := [(x0, 1)]\<rparr>),
                      Leaf (example_leaf [x1] [g0])]
              [(x0, 1)] False, None), \<lambda>n. n)
   \<and> get_prover example_ops
      (AndProof [Leaf (example_leaf [x0] [g0]), Leaf (example_leaf [x1] [g0])] [] True)
      [(x0, 1), (x1, 2)] (\<lambda>n. n)
    = Inr ((AndProof [Leaf (example_leaf [x0] [g0]), Leaf (example_leaf [x1] [g0])]
              (dict_update [] [(x0, 1), (x1, 2)]) True, None), \<lambda>n. n)"
proof -
  have h1: "\<not> False \<and> dict_update [] [(x0, 1), (x1, 2), (x2, 3)] \<noteq> []"
    and h3: "distinct (map fst ([] :: dict))"
    by (simp_all add: dict_update_def)
  note t = AndProof_get_prover_spec [where L = example_ops
      and ps = "[Leaf (example_leaf [x0] [g0]), Leaf (example_leaf [x1] [g0])]"
      and r = "\<lambda>n. n", OF h3, THEN conjunct2, rule_format, OF h1]
  have a: "get_prover example_ops
      (AndProof [Leaf (example_leaf [x0] [g0]), Leaf (example_leaf [x1] [g0])] [] False)
      [(x0, 1), (x1, 2), (x2, 3)] (\<lambda>n. n)
    = Inr ((AndProof [Leaf ((example_leaf [x0] [g0])\<lparr>lf_secret_values := [(x0, 1)]\<rparr>),
                      Leaf ((example_leaf [x1] [g0])\<lparr>lf_secret_values := [(x1, 2)]\<rparr>)]
              [(x0, 1), (x1, 2), (x2, 3)] False,
            Some (AndProver
              (AndProof [Leaf ((example_leaf [x0] [g0])\<lparr>lf_secret_values := [(x0, 1)]\<rparr>),
                         Leaf ((example_leaf [x1] [g0])\<lparr>lf_secret_values := [(x1, 2)]\<rparr>)]
                 [(x0, 1), (x1, 2), (x2, 3)] False)
              [LeafProver (), LeafProver ()])), \<lambda>n. n)
   \<and> get_prover example_ops
      (AndProof [Leaf (example_leaf [x0] [g0]), Leaf (example_leaf [x1] [g0])] [] False)
      [(x0, 1)] (\<lambda>n. n)
    = Inr ((AndProof [Leaf ((example_leaf [x0] [g0])\<lparr>lf_secret_values := [(x0, 1)]\<rparr>),
                      Leaf (example_leaf [x1] [g0])]
              [(x0, 1)] False, None), \<lambda>n. n)"
    using t by (simp add: prover_eval)
  have b: "get_prover example_ops
      (AndProof [Leaf (example_leaf [x0] [g0]), Leaf (example_leaf [x1] [g0])] [] True)
      [(x0, 1), (x1, 2)] (\<lambda>n. n)
    = Inr ((AndProof [Leaf (example_leaf [x0] [g0]), Leaf (example_leaf [x1] [g0])]
              (dict_update [] [(x0, 1), (x1, 2)]) True, None), \<lambda>n. n)"
    by (rule AndProof_get_prover_spec [OF h3, THEN conjunct1, rule_format]) simp
  from a b show ?thesis
    by (intro conjI) simp_all
qed

text \<open>
  Claim C5 as stated fails on two counts. On a node whose simulation flag is set no child
  prover is built and the result is \<^verbatim>\<open>None\<close>, although each child, asked with its part of
  the witness map, returns a prover. And a child is handed entries that the caller's
  witness map does not hold: a node constructed over a secret that carries the value \<open>4\<close>
  has recorded that value, and builds a prover from a witness map that holds \<open>x1\<close> only,
  while its first child, asked with the caller's entries alone, returns \<^verbatim>\<open>None\<close>.
\<close>

theorem AndProof_get_prover_counterexample:
  "get_prover example_ops
      (AndProof [Leaf (example_leaf [x0] [g0]), Leaf (example_leaf [x1] [g0])] [] True)
      [(x0, 1), (x1, 2)] (\<lambda>n. n)
    = Inr ((AndProof [Leaf (example_leaf [x0] [g0]), Leaf (example_leaf [x1] [g0])]
              [(x0, 1), (x1, 2)] True, None), \<lambda>n. n)
   \<and> sub_proof_prover example_ops (Leaf (example_leaf [x0] [g0])) [(x0, 1), (x1, 2)] (\<lambda>n. n)
    = Inr ((Leaf ((example_leaf [x0] [g0])\<lparr>lf_secret_values := [(x0, 1)]\<rparr>),
            Some (LeafProver ())), \<lambda>n. n)
   \<and> sub_proof_prover example_ops (Leaf (example_leaf [x1] [g0])) [(x0, 1), (x1, 2)] (\<lambda>n. n)
    = Inr ((Leaf ((example_leaf [x1] [g0])\<lparr>lf_secret_values := [(x1, 2)]\<rparr>),
            Some (LeafProver ())), \<lambda>n. n)
   \<and> AndProof_init [Leaf (example_leaf [\<lparr>sec_name = 0, sec_value = Some 4\<rparr>] [g0]), Leaf (example_leaf [x1] [g0])]
    = Inr (AndProof [Leaf (example_leaf [\<lparr>sec_name = 0, sec_value = Some 4\<rparr>] [g0]), Leaf (example_leaf [x1] [g0])]
             [(\<lparr>sec_name = 0, sec_value = Some 4\<rparr>, 4)] False :: unit Proof)
   \<and> get_prover example_ops
      (AndProof [Leaf (example_leaf [\<lparr>sec_name = 0, sec_value = Some 4\<rparr>] [g0]), Leaf (example_leaf [x1] [g0])]
         [(\<lparr>sec_name = 0, sec_value = Some 4\<rparr>, 4)] False)
      [(x1, 3)] (\<lambda>n. n)
    = Inr ((AndProof [Leaf ((example_leaf [\<lparr>sec_name = 0, sec_value = Some 4\<rparr>] [g0])\<lparr>lf_secret_values := [(\<lparr>sec_name = 0, sec_value = Some 4\<rparr>, 4)]\<rparr>),
                      Leaf ((example_leaf [x1] [g0])\<lparr>lf_secret_values := [(x1, 3)]\<rparr>)]
              [(\<lparr>sec_name = 0, sec_value = Some 4\<rparr>, 4), (x1, 3)] False,
            Some (AndProver
              (AndProof [Leaf ((example_leaf [\<lparr>sec_name = 0, sec_value = Some 4\<rparr>] [g0])\<lparr>lf_secret_values := [(\<lparr>sec_name = 0, sec_value = Some 4\<rparr>, 4)]\<rparr>),
                         Leaf ((example_leaf [x1] [g0])\<lparr>lf_secret_values := [(x1, 3)]\<rparr>)]
                 [(\<lparr>sec_name = 0, sec_value = Some 4\<rparr>, 4), (x1, 3)] False)
              [LeafProver (), LeafProver ()])), \<lambda>n. n)
   \<and> sub_proof_prover example_ops (Leaf (example_leaf [\<lparr>sec_name = 0, sec_value = Some 4\<rparr>] [g0])) [(x1, 3)] (\<lambda>n. n)
    = Inr ((Leaf (example_leaf [\<lparr>sec_name = 0, sec_value = Some 4\<rparr>] [g0]), None), \<lambda>n. n)"
  by (simp add: prover_eval construct_eval)

section \<open>The OR prover's choice of the real child\<close>

lemma choice_mem: "xs \<noteq> [] \<Longrightarrow> fst (choice xs r) \<in> set xs"
  by (simp add: choice_def next_rand_def)

lemma or_draw_trace:
  "or_draw attempt ps possible r = Inr ((ps', chosen, res), r') \<Longrightarrow> distinct possible \<Longrightarrow>
   length ps' = length ps \<and>
   (\<exists>tried. tried \<noteq> [] \<and> distinct tried \<and> set tried \<subseteq> set possible \<and> last tried = chosen
      \<and> (\<forall>i \<in> set (butlast tried). \<exists>s q s'. attempt i s = Inr ((q, None), s'))
      \<and> (\<exists>s q s'. attempt chosen s = Inr ((q, res), s'))
      \<and> (res = None \<longrightarrow> set tried = set possible))"
proof (induction attempt ps possible r arbitrary: ps' chosen res r' rule: or_draw.induct)
  case (1 attempt ps possible r)
  have "possible = [] \<Longrightarrow> or_draw attempt ps possible r = Inl IndexError"
    by (subst or_draw.simps) simp
  with "1.prems"(1) have ne: "possible \<noteq> []"
    by auto
  obtain c r1 where ch: "choice possible r = (c, r1)"
    by (cases "choice possible r")
  with ne have mem: "c \<in> set possible"
    using choice_mem [of possible r] by simp
  have "attempt c r1 = Inl e \<Longrightarrow> or_draw attempt ps possible r = Inl e" for e
    using ne ch by (subst or_draw.simps) simp
  with "1.prems"(1) obtain p1 vp r2 where att: "attempt c r1 = Inr ((p1, vp), r2)"
    by (cases "attempt c r1") auto
  show ?case
  proof (cases vp)
    case (Some q)
    have "or_draw attempt ps possible r = Inr ((ps[c := p1], c, Some q), r2)"
      using ne ch att Some by (subst or_draw.simps) simp
    with "1.prems"(1) have res: "ps' = ps[c := p1]" "chosen = c" "res = Some q" "r' = r2"
      by auto
    have "\<exists>s q' s'. attempt chosen s = Inr ((q', res), s')"
      using att Some res by blast
    with mem res show ?thesis
      by (intro conjI exI [of _ "[c]"]) simp_all
  next
    case None
    show ?thesis
    proof (cases "remove1 c possible = []")
      case True
      have "or_draw attempt ps possible r = Inr ((ps[c := p1], c, None), r2)"
        using ne ch att None True by (subst or_draw.simps) simp
      with "1.prems"(1) have res: "ps' = ps[c := p1]" "chosen = c" "res = None" "r' = r2"
        by auto
      have "set possible = {c}"
      proof -
        have "set possible \<subseteq> insert c (set (remove1 c possible))"
          by (metis in_set_remove1 insertCI subsetI)
        with mem True show ?thesis by auto
      qed
      moreover have "\<exists>s q' s'. attempt chosen s = Inr ((q', res), s')"
        using att None res by blast
      ultimately show ?thesis
        using res by (intro conjI exI [of _ "[c]"]) simp_all
    next
      case False
      have "or_draw attempt ps possible r = or_draw attempt (ps[c := p1]) (remove1 c possible) r2"
        using ne ch att None False by (subst or_draw.simps) simp
      with "1.prems"(1)
      have rec: "or_draw attempt (ps[c := p1]) (remove1 c possible) r2 = Inr ((ps', chosen, res), r')"
        by simp
      have d': "distinct (remove1 c possible)"
        using "1.prems"(2) by simp
      have nz: "length (remove1 c possible) \<noteq> 0"
        using False by simp
      from "1.IH" [OF ne refl ch [symmetric] att refl refl refl None refl nz rec d']
      obtain tried where len: "length ps' = length (ps[c := p1])" and
        t: "tried \<noteq> []" "distinct tried" "set tried \<subseteq> set (remove1 c possible)"
           "last tried = chosen"
           "\<forall>i \<in> set (butlast tried). \<exists>s q s'. attempt i s = Inr ((q, None), s')"
           "\<exists>s q s'. attempt chosen s = Inr ((q, res), s')"
           "res = None \<longrightarrow> set tried = set (remove1 c possible)"
        by blast
      have notin: "c \<notin> set (remove1 c possible)"
        using "1.prems"(2) by simp
      have sub: "set (remove1 c possible) \<subseteq> set possible"
        by (rule set_remove1_subset)
      have "set possible \<subseteq> insert c (set (remove1 c possible))"
        by (metis in_set_remove1 insertCI subsetI)
      with sub mem have seteq: "insert c (set (remove1 c possible)) = set possible"
        by auto
      have "c # tried \<noteq> []" by simp
      moreover have "distinct (c # tried)"
        using t(2,3) notin by auto
      moreover have "set (c # tried) \<subseteq> set possible"
        using t(3) sub mem by auto
      moreover have "last (c # tried) = chosen"
        using t(1,4) by simp
      moreover have "\<forall>i \<in> set (butlast (c # tried)). \<exists>s q s'. attempt i s = Inr ((q, None), s')"
        using t(1,5) att None by auto
      moreover have "res = None \<longrightarrow> set (c # tried) = set possible"
        using t(7) seteq by auto
      ultimately show ?thesis
        using len t(6) by (intro conjI exI [of _ "c # tried"]) simp_all
    qed
  qed
qed

lemma OrProver_init_Inr:
  "OrProver_init L proof subprover r = Inr (prover, r') \<Longrightarrow>
   \<exists>i sims. chosen_idx proof = Some i \<and> prover = OrProver proof subprover i sims"
  by (auto simp: OrProver_init_def split: option.splits sum.splits)

text \<open>
  Claim C6, as amended. On an OR node whose own simulation flag is not set and whose
  merged witness map is not empty, \<^verbatim>\<open>get_prover\<close>, when it returns, has tried a sequence
  of pairwise distinct children, every one of them a child whose simulation flag is not
  set; every child tried but the last returned \<^verbatim>\<open>None\<close>; the node records the last
  child tried as \<^verbatim>\<open>chosen_idx\<close>. The result is \<^verbatim>\<open>None\<close> exactly when every child
  whose flag is not set has been tried and has returned \<^verbatim>\<open>None\<close> (in particular when
  there is no such child, where nothing is drawn); otherwise the last child tried returned
  the subprover of the OR prover returned, which records that child's index.
\<close>

theorem OrProof_get_prover_spec:
  assumes "\<not> sim" and "dict_update vals secrets_dict \<noteq> []"
    and "get_prover L (OrProof ps vals sim ch) secrets_dict r = Inr ((p', res), r')"
  shows "(filter (\<lambda>idx. \<not> simulation (ps ! idx)) [0..<length ps] = [] \<longrightarrow>
            res = None \<and> p' = OrProof ps (dict_update vals secrets_dict) sim ch \<and> r' = r)
    \<and> (filter (\<lambda>idx. \<not> simulation (ps ! idx)) [0..<length ps] \<noteq> [] \<longrightarrow>
          (\<exists>tried. tried \<noteq> [] \<and> distinct tried
             \<and> (\<forall>i \<in> set tried. i < length ps \<and> \<not> simulation (ps ! i))
             \<and> chosen_idx p' = Some (last tried)
             \<and> (\<forall>i \<in> set (butlast tried). \<exists>s q s'.
                   sub_proof_prover L (ps ! i) (dict_update vals secrets_dict) s
                     = Inr ((q, None), s'))
             \<and> (res = None \<longrightarrow>
                   (\<forall>i<length ps. \<not> simulation (ps ! i) \<longrightarrow> i \<in> set tried)
                   \<and> (\<exists>s q s'. sub_proof_prover L (ps ! last tried)
                          (dict_update vals secrets_dict) s = Inr ((q, None), s')))
             \<and> (\<forall>prover. res = Some prover \<longrightarrow>
                   (\<exists>subprover sims s q s'.
                      prover = OrProver p' subprover (last tried) sims
                      \<and> sub_proof_prover L (ps ! last tried) (dict_update vals secrets_dict) s
                          = Inr ((q, Some subprover), s')))))"
proof -
  let ?d = "dict_update vals secrets_dict"
  let ?cands = "filter (\<lambda>idx. \<not> simulation (ps ! idx)) [0..<length ps]"
  let ?att = "\<lambda>idx. get_prover L (ps ! idx) (secrets_for_prover (secret_vars (ps ! idx)) ?d)"
  have sF: "sim = False"
    using assms(1) by simp
  have att: "?att i s = sub_proof_prover L (ps ! i) ?d s" for i s
    by (simp add: sub_proof_prover_def)
  have unfold: "get_prover L (OrProof ps vals sim ch) secrets_dict r =
      (if ?cands = [] then Inr ((OrProof ps ?d sim ch, None), r)
       else
         (case or_draw ?att ps ?cands r of
            Inl e \<Rightarrow> Inl e
          | Inr ((ps', chosen, valid_prover), r') \<Rightarrow>
              (case valid_prover of
                 None \<Rightarrow> Inr ((OrProof ps' ?d sim (Some chosen), None), r')
               | Some subprover \<Rightarrow>
                   (case OrProver_init L (OrProof ps' ?d sim (Some chosen)) subprover r' of
                      Inl e \<Rightarrow> Inl e
                    | Inr (prover, r'') \<Rightarrow>
                        Inr ((OrProof ps' ?d sim (Some chosen), Some prover), r'')))))"
    unfolding sF using assms(2)
    by (auto simp: Let_def split: sum.splits prod.splits option.splits)
  have part1: "res = None \<and> p' = OrProof ps ?d sim ch \<and> r' = r" if "?cands = []"
    using assms(3) that unfolding unfold by simp
  have part2: "\<exists>tried. tried \<noteq> [] \<and> distinct tried
             \<and> (\<forall>i \<in> set tried. i < length ps \<and> \<not> simulation (ps ! i))
             \<and> chosen_idx p' = Some (last tried)
             \<and> (\<forall>i \<in> set (butlast tried). \<exists>s q s'.
                   sub_proof_prover L (ps ! i) ?d s = Inr ((q, None), s'))
             \<and> (res = None \<longrightarrow>
                   (\<forall>i<length ps. \<not> simulation (ps ! i) \<longrightarrow> i \<in> set tried)
                   \<and> (\<exists>s q s'. sub_proof_prover L (ps ! last tried) ?d s = Inr ((q, None), s')))
             \<and> (\<forall>prover. res = Some prover \<longrightarrow>
                   (\<exists>subprover sims s q s'.
                      prover = OrProver p' subprover (last tried) sims
                      \<and> sub_proof_prover L (ps ! last tried) ?d s
                          = Inr ((q, Some subprover), s')))"
    if ne: "?cands \<noteq> []"
  proof -
    from ne assms(3) obtain ps' chosen vp r1 where
      draw: "or_draw ?att ps ?cands r = Inr ((ps', chosen, vp), r1)" and
      rest: "(case vp of
                 None \<Rightarrow> Inr ((OrProof ps' ?d sim (Some chosen), None), r1)
               | Some subprover \<Rightarrow>
                   (case OrProver_init L (OrProof ps' ?d sim (Some chosen)) subprover r1 of
                      Inl e \<Rightarrow> Inl e
                    | Inr (prover, r'') \<Rightarrow>
                        Inr ((OrProof ps' ?d sim (Some chosen), Some prover), r'')))
             = Inr ((p', res), r')"
      unfolding unfold by (auto split: sum.splits)
    have p': "p' = OrProof ps' ?d sim (Some chosen)"
      using rest by (auto split: option.splits sum.splits)
    have resN: "res = None \<longleftrightarrow> vp = None"
      using rest by (auto split: option.splits sum.splits)
    have resS: "\<exists>subprover sims. vp = Some subprover \<and> prover = OrProver p' subprover chosen sims"
      if "res = Some prover" for prover
      using rest that unfolding p'
      by (auto split: option.splits sum.splits dest!: OrProver_init_Inr)
    have "distinct ?cands"
      by simp
    from or_draw_trace [OF draw this] obtain tried where
      t: "tried \<noteq> []" "distinct tried" "set tried \<subseteq> set ?cands" "last tried = chosen"
         "\<forall>i \<in> set (butlast tried). \<exists>s q s'. ?att i s = Inr ((q, None), s')"
         "\<exists>s q s'. ?att chosen s = Inr ((q, vp), s')"
         "vp = None \<longrightarrow> set tried = set ?cands"
      by blast
    have c1: "\<forall>i \<in> set tried. i < length ps \<and> \<not> simulation (ps ! i)"
      using t(3) by auto
    have c2: "chosen_idx p' = Some (last tried)"
      using p' t(4) by simp
    have c3: "\<forall>i \<in> set (butlast tried). \<exists>s q s'. sub_proof_prover L (ps ! i) ?d s = Inr ((q, None), s')"
      using t(5) unfolding att .
    have c4: "res = None \<longrightarrow>
          (\<forall>i<length ps. \<not> simulation (ps ! i) \<longrightarrow> i \<in> set tried)
          \<and> (\<exists>s q s'. sub_proof_prover L (ps ! last tried) ?d s = Inr ((q, None), s'))"
    proof
      assume "res = None"
      then have vp: "vp = None" using resN by simp
      with t(7) have "set tried = set ?cands" by simp
      then have "\<forall>i<length ps. \<not> simulation (ps ! i) \<longrightarrow> i \<in> set tried"
        by auto
      moreover have "\<exists>s q s'. sub_proof_prover L (ps ! last tried) ?d s = Inr ((q, None), s')"
        using t(6) vp t(4) unfolding att by simp
      ultimately show "(\<forall>i<length ps. \<not> simulation (ps ! i) \<longrightarrow> i \<in> set tried)
          \<and> (\<exists>s q s'. sub_proof_prover L (ps ! last tried) ?d s = Inr ((q, None), s'))"
        by blast
    qed
    have c5: "\<forall>prover. res = Some prover \<longrightarrow>
          (\<exists>subprover sims s q s'. prover = OrProver p' subprover (last tried) sims
             \<and> sub_proof_prover L (ps ! last tried) ?d s = Inr ((q, Some subprover), s'))"
    proof (intro allI impI)
      fix prover
      assume "res = Some prover"
      from resS [OF this] obtain subprover sims where
        s: "vp = Some subprover" "prover = OrProver p' subprover chosen sims"
        by blast
      with t(6) t(4) show "\<exists>subprover sims s q s'. prover = OrProver p' subprover (last tried) sims
             \<and> sub_proof_prover L (ps ! last tried) ?d s = Inr ((q, Some subprover), s')"
        unfolding att by blast
    qed
    from t(1,2) c1 c2 c3 c4 c5 show ?thesis
      by (intro exI [of _ tried] conjI)
  qed
  from part1 part2 show ?thesis
    by blast
qed

lemma or_draw_Some:
  "possible \<noteq> [] \<Longrightarrow> choice possible r = (c, r1) \<Longrightarrow> attempt c r1 = Inr ((p1, Some q), r2) \<Longrightarrow>
   or_draw attempt ps possible r = Inr ((ps[c := p1], c, Some q), r2)"
  by (subst or_draw.simps) simp

lemma or_draw_None_last:
  "possible \<noteq> [] \<Longrightarrow> choice possible r = (c, r1) \<Longrightarrow> attempt c r1 = Inr ((p1, None), r2) \<Longrightarrow>
   remove1 c possible = [] \<Longrightarrow>
   or_draw attempt ps possible r = Inr ((ps[c := p1], c, None), r2)"
  by (subst or_draw.simps) simp

lemma or_draw_None_more:
  "possible \<noteq> [] \<Longrightarrow> choice possible r = (c, r1) \<Longrightarrow> attempt c r1 = Inr ((p1, None), r2) \<Longrightarrow>
   remove1 c possible \<noteq> [] \<Longrightarrow>
   or_draw attempt ps possible r = or_draw attempt (ps[c := p1]) (remove1 c possible) r2"
  by (subst or_draw.simps) simp

lemmas draw_eval =
  example_ops_def example_leaf_def example_simulate_def dict_update_def secrets_for_prover_def
  sub_proof_prover_def choice_def chal_randbits_def next_rand_def CHAL_LENGTH_def
  setup_simulations_def OrProver_init_def upt_rec
  x0_def x1_def x2_def g0_def Let_def

lemma example_or_draw:
  "or_draw (\<lambda>idx. get_prover example_ops
        ([Leaf (example_leaf [x0] [g0]), Leaf (example_leaf [x1] [g0]),
          Leaf (example_leaf [x2] [g0])] ! idx)
        (secrets_for_prover
           (secret_vars ([Leaf (example_leaf [x0] [g0]), Leaf (example_leaf [x1] [g0]),
              Leaf (example_leaf [x2] [g0])] ! idx)) [(x1, 5)]))
      [Leaf (example_leaf [x0] [g0]), Leaf (example_leaf [x1] [g0]), Leaf (example_leaf [x2] [g0])]
      [0, 1, 2] (\<lambda>n. n)
   = Inr (([Leaf (example_leaf [x0] [g0]),
            Leaf ((example_leaf [x1] [g0])\<lparr>lf_secret_values := [(x1, 5)]\<rparr>),
            Leaf (example_leaf [x2] [g0])], 1, Some (LeafProver ())), \<lambda>n. Suc (Suc (Suc n)))"
  (is "or_draw ?att ?ps _ _ = _")
proof -
  have "or_draw ?att ?ps [0, 1, 2] (\<lambda>n. n) = or_draw ?att ?ps [1, 2] (\<lambda>n. Suc n)"
    using or_draw_None_more [where attempt = ?att and ps = ?ps and possible = "[0, 1, 2]"
        and r = "\<lambda>n. n" and c = 0 and ?r1.0 = "\<lambda>n. Suc n" and ?p1.0 = "?ps ! 0"
        and ?r2.0 = "\<lambda>n. Suc n"]
    by (simp add: draw_eval)
  also have "\<dots> = or_draw ?att ?ps [1] (\<lambda>n. Suc (Suc n))"
    using or_draw_None_more [where attempt = ?att and ps = ?ps and possible = "[1, 2]"
        and r = "\<lambda>n. Suc n" and c = 2 and ?r1.0 = "\<lambda>n. Suc (Suc n)" and ?p1.0 = "?ps ! 2"
        and ?r2.0 = "\<lambda>n. Suc (Suc n)"]
    by (simp add: draw_eval)
  also have "\<dots> = Inr ((?ps[1 := Leaf ((example_leaf [x1] [g0])\<lparr>lf_secret_values := [(x1, 5)]\<rparr>)],
        1, Some (LeafProver ())), \<lambda>n. Suc (Suc (Suc n)))"
    using or_draw_Some [where attempt = ?att and ps = ?ps and possible = "[1]"
        and r = "\<lambda>n. Suc (Suc n)" and c = 1 and ?r1.0 = "\<lambda>n. Suc (Suc (Suc n))"
        and ?p1.0 = "Leaf ((example_leaf [x1] [g0])\<lparr>lf_secret_values := [(x1, 5)]\<rparr>)"
        and q = "LeafProver ()" and ?r2.0 = "\<lambda>n. Suc (Suc (Suc n))"]
    by (simp add: draw_eval)
  finally show ?thesis
    by simp
qed

lemma example_leaf_sel:
  "lf_secret_vars (example_leaf svs gs) = svs"
  "lf_generators (example_leaf svs gs) = gs"
  "lf_secret_values (example_leaf svs gs) = []"
  "lf_simulation (example_leaf svs gs) = False"
  by (simp_all add: example_leaf_def)

lemma example_chal_randbits: "chal_randbits CHAL_LENGTH (\<lambda>n. Suc (Suc (Suc n))) = (3, \<lambda>n. Suc (Suc (Suc (Suc n))))"
  by (simp add: chal_randbits_def next_rand_def CHAL_LENGTH_def)

lemma example_setup_simulations: "setup_simulations example_ops (OrProof [Leaf (example_leaf [x0] [g0]),
                    Leaf ((example_leaf [x1] [g0])\<lparr>lf_secret_values := [(x1, 5)]\<rparr>),
                    Leaf (example_leaf [x2] [g0])] [(x1, 5)] False (Some (Suc 0))) (Suc 0) (\<lambda>n. Suc (Suc (Suc n)))
   = Inr ([\<lparr>commitment = LeafCom 3, challenge = 3, responses = LeafResp [0],
                 precommitment = NoPrecom\<rparr>,
              \<lparr>commitment = LeafCom 4, challenge = 4, responses = LeafResp [0],
                 precommitment = NoPrecom\<rparr>], \<lambda>n. Suc (Suc (Suc (Suc (Suc n)))))"
  by (simp add: setup_simulations_def upt_rec example_ops_def example_simulate_def example_chal_randbits Let_def
       chal_randbits_def next_rand_def CHAL_LENGTH_def example_leaf_def)

lemma example_or_get_prover:
  "get_prover example_ops
      (OrProof [Leaf (example_leaf [x0] [g0]), Leaf (example_leaf [x1] [g0]),
                Leaf (example_leaf [x2] [g0])] [] False None)
      [(x1, 5)] (\<lambda>n. n)
   = Inr ((OrProof [Leaf (example_leaf [x0] [g0]),
                    Leaf ((example_leaf [x1] [g0])\<lparr>lf_secret_values := [(x1, 5)]\<rparr>),
                    Leaf (example_leaf [x2] [g0])] [(x1, 5)] False (Some 1),
           Some (OrProver
             (OrProof [Leaf (example_leaf [x0] [g0]),
                    Leaf ((example_leaf [x1] [g0])\<lparr>lf_secret_values := [(x1, 5)]\<rparr>),
                    Leaf (example_leaf [x2] [g0])] [(x1, 5)] False (Some 1))
             (LeafProver ()) 1
             [\<lparr>commitment = LeafCom 3, challenge = 3, responses = LeafResp [0],
                 precommitment = NoPrecom\<rparr>,
              \<lparr>commitment = LeafCom 4, challenge = 4, responses = LeafResp [0],
                 precommitment = NoPrecom\<rparr>])),
          \<lambda>n. Suc (Suc (Suc (Suc (Suc n)))))"
proof -
  have cands: "filter (\<lambda>idx. \<not> simulation ([Leaf (example_leaf [x0] [g0]),
        Leaf (example_leaf [x1] [g0]), Leaf (example_leaf [x2] [g0])] ! idx))
      [0..<length [Leaf (example_leaf [x0] [g0]), Leaf (example_leaf [x1] [g0]),
        Leaf (example_leaf [x2] [g0])]] = [0, 1, 2]"
    by (simp add: upt_rec example_leaf_sel)
  have d: "dict_update [] [(x1, 5)] = [(x1, 5)]"
    by (simp add: dict_update_def)
  show ?thesis
    by (simp only: get_prover.simps Let_def d cands example_or_draw)
       (simp add: OrProver_init_def example_setup_simulations)
qed

theorem OrProof_get_prover_spec_witness:
  "\<exists>p' sims r'.
     get_prover example_ops
       (OrProof [Leaf (example_leaf [x0] [g0]), Leaf (example_leaf [x1] [g0]),
                 Leaf (example_leaf [x2] [g0])] [] False None)
       [(x1, 5)] (\<lambda>n. n)
     = Inr ((p', Some (OrProver p' (LeafProver ()) 1 sims)), r')
   \<and> chosen_idx p' = Some 1
   \<and> simulation ([Leaf (example_leaf [x0] [g0]), Leaf (example_leaf [x1] [g0]),
                    Leaf (example_leaf [x2] [g0]) :: unit Proof] ! 1) = False"
proof -
  let ?ps = "[Leaf (example_leaf [x0] [g0]), Leaf (example_leaf [x1] [g0]),
              Leaf (example_leaf [x2] [g0])] :: unit Proof list"
  let ?P' = "OrProof [Leaf (example_leaf [x0] [g0]),
                    Leaf ((example_leaf [x1] [g0])\<lparr>lf_secret_values := [(x1, 5)]\<rparr>),
                    Leaf (example_leaf [x2] [g0])] [(x1, 5)] False (Some 1) :: unit Proof"
  have h1: "\<not> False" and h2: "dict_update [] [(x1, 5)] \<noteq> []"
    by (simp_all add: dict_update_def)
  have cands: "filter (\<lambda>idx. \<not> simulation (?ps ! idx)) [0..<length ?ps] \<noteq> []"
    by (simp add: upt_rec example_leaf_sel)
  from OrProof_get_prover_spec [OF h1 h2 example_or_get_prover] cands
  obtain tried where tr: "tried \<noteq> []"
      "\<forall>i \<in> set tried. i < length ?ps \<and> \<not> simulation (?ps ! i)"
      "chosen_idx ?P' = Some (last tried)"
    by blast
  from tr(3) have "last tried = 1"
    by simp
  with tr(1,2) have "\<not> simulation (?ps ! 1)"
    by (metis last_in_set)
  then have "get_prover example_ops (OrProof ?ps [] False None) [(x1, 5)] (\<lambda>n. n)
      = Inr ((?P', Some (OrProver ?P' (LeafProver ()) 1
          [\<lparr>commitment = LeafCom 3, challenge = 3, responses = LeafResp [0],
                 precommitment = NoPrecom\<rparr>,
           \<lparr>commitment = LeafCom 4, challenge = 4, responses = LeafResp [0],
                 precommitment = NoPrecom\<rparr>])), \<lambda>n. Suc (Suc (Suc (Suc (Suc n)))))
    \<and> chosen_idx ?P' = Some 1 \<and> simulation (?ps ! 1) = False"
    using example_or_get_prover by simp
  then show ?thesis
    by blast
qed

text \<open>
  Claim C6 as stated fails on an OR node whose own simulation flag is set: both children
  are candidates (their flags are not set) and each of them builds a prover from the
  witness map, yet \<^verbatim>\<open>get_prover\<close> returns \<^verbatim>\<open>None\<close> without drawing.
\<close>

theorem OrProof_get_prover_flag_counterexample:
  "get_prover example_ops
      (OrProof [Leaf (example_leaf [x0] [g0]), Leaf (example_leaf [x1] [g0])] [] True None)
      [(x0, 1), (x1, 2)] (\<lambda>n. n)
    = Inr ((OrProof [Leaf (example_leaf [x0] [g0]), Leaf (example_leaf [x1] [g0])]
              [(x0, 1), (x1, 2)] True None, None), \<lambda>n. n)
   \<and> filter (\<lambda>idx. \<not> simulation
          ([Leaf (example_leaf [x0] [g0]), Leaf (example_leaf [x1] [g0]) :: unit Proof] ! idx))
        [0..<length [Leaf (example_leaf [x0] [g0]), Leaf (example_leaf [x1] [g0]) :: unit Proof]]
      = [0, 1]
   \<and> sub_proof_prover example_ops (Leaf (example_leaf [x0] [g0])) [(x0, 1), (x1, 2)] (\<lambda>n. n)
      = Inr ((Leaf ((example_leaf [x0] [g0])\<lparr>lf_secret_values := [(x0, 1)]\<rparr>),
              Some (LeafProver ())), \<lambda>n. n)
   \<and> sub_proof_prover example_ops (Leaf (example_leaf [x1] [g0])) [(x0, 1), (x1, 2)] (\<lambda>n. n)
      = Inr ((Leaf ((example_leaf [x1] [g0])\<lparr>lf_secret_values := [(x1, 2)]\<rparr>),
              Some (LeafProver ())), \<lambda>n. n)"
  by (simp add: prover_eval upt_rec)

section \<open>Simulation of an AND node\<close>

lemma fold_update_keys:
  "fst ` set (fold (\<lambda>(k, v) acc. AList.update k v acc) zs acc) = fst ` set zs \<union> fst ` set acc"
proof (induction zs arbitrary: acc)
  case Nil
  show ?case by simp
next
  case (Cons z zs)
  obtain k v where z: "z = (k, v)" by (cases z)
  have "fst ` set (AList.update k v acc) = insert k (fst ` set acc)"
    by (induction acc) auto
  with Cons.IH [of "AList.update k v acc"] z show ?case
    by auto
qed

lemma dict_update_keys: "fst ` set (dict_update d other) = fst ` set d \<union> fst ` set other"
  by (auto simp: dict_update_def fold_update_keys)

lemma fold_update_map_of:
  "distinct (map fst zs) \<Longrightarrow>
   map_of (fold (\<lambda>(k, v) acc. AList.update k v acc) zs acc) k =
     (if k \<in> fst ` set zs then map_of zs k else map_of acc k)"
proof (induction zs arbitrary: acc)
  case Nil
  show ?case by simp
next
  case (Cons z zs)
  obtain k1 v1 where z: "z = (k1, v1)" by (cases z)
  from Cons.prems z have d: "distinct (map fst zs)" and n: "k1 \<notin> fst ` set zs"
    by auto
  have "map_of (fold (\<lambda>(k, v) acc. AList.update k v acc) (z # zs) acc) k =
      map_of (fold (\<lambda>(k, v) acc. AList.update k v acc) zs (AList.update k1 v1 acc)) k"
    using z by simp
  also have "\<dots> = (if k \<in> fst ` set zs then map_of zs k else map_of (AList.update k1 v1 acc) k)"
    by (rule Cons.IH [OF d])
  also have "\<dots> = (if k \<in> fst ` set (z # zs) then map_of (z # zs) k else map_of acc k)"
    using z n by (auto simp: update_conv')
  finally show ?case .
qed

lemma dict_update_map_of:
  "distinct (map fst other) \<Longrightarrow> k \<in> fst ` set other \<Longrightarrow>
   map_of (dict_update d other) k = map_of other k"
  by (simp add: dict_update_def fold_update_map_of)

lemma draw_randomizers_keys: "map fst (fst (draw_randomizers zs r)) = map fst zs"
  by (induction zs r rule: draw_randomizers.induct) (auto simp: Let_def split: prod.splits)

lemma get_randomizers_keys:
  "fst ` set (fst (get_randomizers p r)) = fst ` set (zip (secret_vars p) (generators p))"
proof -
  have "fst ` set (fst (get_randomizers p r)) =
      set (map fst (fst (get_randomizers p r)))"
    by simp
  also have "\<dots> = fst ` set (fold (\<lambda>(k, g) acc. AList.update k g acc)
      (zip (secret_vars p) (generators p)) [])"
    unfolding get_randomizers_def Let_def draw_randomizers_keys by simp
  finally show ?thesis
    by (simp add: fold_update_keys)
qed

lemma zip_keys_all:
  assumes "length xs \<le> length ys"
  shows "fst ` set (zip xs ys) = set xs"
proof -
  have "map fst (zip xs ys) = xs"
    using assms by (simp add: map_fst_zip_take min_def)
  then have "set (map fst (zip xs ys)) = set xs"
    by simp
  then show ?thesis
    by (simp only: set_map)
qed

lemma update_randomizers_complete:
  assumes "set (secret_vars p) \<subseteq> fst ` set g"
  shows "update_randomizers p (Some g) r = (g, r)"
  using assms by (auto simp: update_randomizers_def)

lemma update_randomizers_incomplete:
  assumes "\<not> set (secret_vars p) \<subseteq> fst ` set g"
  shows "update_randomizers p (Some g) r =
     (dict_update (fst (get_randomizers p r)) g, snd (get_randomizers p r))"
proof -
  from assms have "\<exists>x \<in> set (secret_vars p). x \<notin> fst ` set g"
    by auto
  then show ?thesis
    by (simp add: update_randomizers_def Let_def split: prod.splits)
qed

lemma update_randomizers_covers:
  assumes "length (secret_vars p) \<le> length (generators p)"
    and "update_randomizers p rd_opt r = (rd, r1)"
  shows "set (secret_vars p) \<subseteq> fst ` set rd"
proof -
  have tmp: "fst ` set (fst (get_randomizers p s)) = set (secret_vars p)" for s
    unfolding get_randomizers_keys by (rule zip_keys_all [OF assms(1)])
  show ?thesis
  proof (cases rd_opt)
    case None
    with assms(2) have "rd = fst (get_randomizers p r)"
      by (simp add: update_randomizers_def)
    then show ?thesis using tmp by simp
  next
    case (Some g)
    show ?thesis
    proof (cases "set (secret_vars p) \<subseteq> fst ` set g")
      case True
      with Some assms(2) show ?thesis
        by (simp add: update_randomizers_complete)
    next
      case False
      with Some assms(2) have "rd = dict_update (fst (get_randomizers p r)) g"
        by (simp add: update_randomizers_incomplete)
      then show ?thesis
        using tmp by (simp add: dict_update_keys)
    qed
  qed
qed

lemma update_randomizers_honours:
  assumes "update_randomizers p (Some g) r = (rd, r1)" and "distinct (map fst g)"
    and "k \<in> fst ` set g"
  shows "map_of rd k = map_of g k"
proof (cases "set (secret_vars p) \<subseteq> fst ` set g")
  case True
  with assms(1) show ?thesis
    by (simp add: update_randomizers_complete)
next
  case False
  with assms(1) have "rd = dict_update (fst (get_randomizers p r)) g"
    by (simp add: update_randomizers_incomplete)
  then show ?thesis
    using assms(2,3) by (simp add: dict_update_map_of)
qed

lemma responses_for_absent:
  "s \<notin> set (secret_vars p) \<Longrightarrow> responses_for p rsp s = []"
proof (induction p rsp s rule: responses_for.induct)
  case (1 lf xs s)
  then have "filter (\<lambda>(s', v). s' = s) (zip (lf_secret_vars lf) xs) = []"
    by (auto simp: filter_empty_conv dest: set_zip_leftD)
  then show ?case by simp
next
  case (2 ps vals sim rs s)
  have "responses_for (ps ! i) (rs ! i) s = []" if "i \<in> set [0..<min (length ps) (length rs)]" for i
  proof (rule "2.IH" [OF that])
    from that have "ps ! i \<in> set ps" by simp
    with "2.prems" show "s \<notin> set (secret_vars (ps ! i))" by auto
  qed
  then show ?case by simp
next
  case (3 ps vals sim ch cs rs s)
  have "responses_for (ps ! i) (rs ! i) s = []" if "i \<in> set [0..<min (length ps) (length rs)]" for i
  proof (rule "3.IH" [OF that])
    from that have "ps ! i \<in> set ps" by simp
    with "3.prems" show "s \<notin> set (secret_vars (ps ! i))" by auto
  qed
  then show ?case by simp
qed simp_all

lemma count_list_concat:
  "count_list (concat xss) x = sum_list (map (\<lambda>xs. count_list xs x) xss)"
  by (induction xss) simp_all

lemma two_le_sum_list:
  fixes xs :: "nat list"
  shows "m < m' \<Longrightarrow> m' < length xs \<Longrightarrow> xs ! m + xs ! m' \<le> sum_list xs"
proof (induction xs arbitrary: m m')
  case Nil
  then show ?case by simp
next
  case (Cons a xs)
  obtain k' where k': "m' = Suc k'"
    using Cons.prems(1) by (cases m') auto
  show ?case
  proof (cases m)
    case 0
    have "xs ! k' \<le> sum_list xs"
      using Cons.prems(2) k' by (intro member_le_sum_list) simp_all
    with 0 k' show ?thesis by simp
  next
    case (Suc k)
    with Cons.prems k' have "xs ! k + xs ! k' \<le> sum_list xs"
      by (intro Cons.IH) simp_all
    with Suc k' show ?thesis by simp
  qed
qed

lemma two_distinct_le_sum_list:
  fixes xs :: "nat list"
  assumes "m \<noteq> m'" "m < length xs" "m' < length xs"
  shows "xs ! m + xs ! m' \<le> sum_list xs"
proof (cases "m < m'")
  case True
  then show ?thesis using assms(3) by (rule two_le_sum_list)
next
  case False
  with assms(1) have "m' < m" by simp
  from two_le_sum_list [OF this assms(2)] show ?thesis by (simp add: add.commute)
qed

lemma top_ors_count:
  "orp \<in> set (top_ors p) \<Longrightarrow> count_list (secret_vars orp) x \<le> count_list (secret_vars p) x"
proof (induction p)
  case (Leaf lf)
  then show ?case by simp
next
  case (OrProof ps vals sim ch)
  then show ?case by simp
next
  case (AndProof ps vals sim)
  then obtain q where q: "q \<in> set ps" "orp \<in> set (top_ors q)"
    by auto
  then have "count_list (secret_vars orp) x \<le> count_list (secret_vars q) x"
    by (rule AndProof.IH)
  also have "\<dots> \<le> sum_list (map (\<lambda>p. count_list (secret_vars p) x) ps)"
    using q(1) by (intro member_le_sum_list) simp_all
  finally show ?case
    by (simp add: count_list_concat comp_def)
qed

lemma no_flaw_shared_secret:
  assumes ok: "check_or_flaw (AndProof ps vals sim) None = Inr ()"
    and ij: "i < j" "j < length ps"
    and xi: "x \<in> set (secret_vars (ps ! i))" and xj: "x \<in> set (secret_vars (ps ! j))"
    and orp: "orp \<in> set (top_ors (AndProof ps vals sim))"
  shows "x \<notin> set (secret_vars orp)"
proof
  assume x: "x \<in> set (secret_vars orp)"
  let ?cnt = "\<lambda>p. count_list (secret_vars p) x"
  let ?A = "AndProof ps vals sim"
  from orp obtain q where q: "q \<in> set ps" "orp \<in> set (top_ors q)"
    by auto
  then obtain m where m: "m < length ps" "orp \<in> set (top_ors (ps ! m))"
    by (metis in_set_conv_nth)
  obtain m' where m': "m' \<noteq> m" "m' < length ps" "x \<in> set (secret_vars (ps ! m'))"
  proof (cases "m = i")
    case True
    with ij xj that [of j] show ?thesis by simp
  next
    case False
    with ij xi that [of i] show ?thesis by simp
  qed
  have "?cnt (ps ! m') \<noteq> 0"
    using m'(3) by (simp only: count_list_0_iff not_not)
  then have "0 < ?cnt (ps ! m')"
    by simp
  moreover have "?cnt orp \<le> ?cnt (ps ! m)"
    using m(2) by (rule top_ors_count)
  moreover have "map ?cnt ps ! m + map ?cnt ps ! m' \<le> sum_list (map ?cnt ps)"
    using m(1) m'(1,2) by (intro two_distinct_le_sum_list) simp_all
  then have "?cnt (ps ! m) + ?cnt (ps ! m') \<le> ?cnt ?A"
    using m(1) m'(2) by (simp add: count_list_concat comp_def)
  ultimately have "?cnt orp < count_list (secret_vars ?A) x"
    by linarith
  with x orp have "check_or_flaw ?A (Some (secret_vars ?A)) = Inl OrFlaw"
    unfolding check_or_flaw_Some by blast
  then have "check_or_flaw ?A None = Inl OrFlaw"
    by simp
  with ok show False
    by simp
qed

lemma leaf_responses_from_dict:
  assumes "set svs \<subseteq> fst ` set rd"
    and "v \<in> set (map snd (filter (\<lambda>(s', v). s' = x)
            (zip svs (map (\<lambda>s. the (map_of rd s)) svs))))"
  shows "Some v = map_of rd x"
proof -
  from assms(2) have "(x, v) \<in> set (zip svs (map (\<lambda>s. the (map_of rd s)) svs))"
    by auto
  then have x: "x \<in> set svs" and v: "v = the (map_of rd x)"
    by (auto simp: set_zip)
  from x assms(1) have "x \<in> fst ` set rd"
    by auto
  then have "map_of rd x \<noteq> None"
    by (simp add: map_of_eq_None_iff)
  with v show ?thesis
    by auto
qed

lemma and_children_follow:
  assumes IH: "\<And>k s tr s'. k < length ps \<Longrightarrow>
        simulate_proof L (ps ! k) (Some rd) (Some c) s = Inr (tr, s') \<Longrightarrow>
        \<forall>v \<in> set (responses_for (ps ! k) (responses tr) x). Some v = map_of rd x"
    and th: "thread (\<lambda>subp. simulate_proof L subp (Some rd) (Some c)) ps r = Inr (sims, r3)"
  shows "\<forall>k<length ps. \<forall>v \<in> set (responses_for (ps ! k) (responses (sims ! k)) x).
            Some v = map_of rd x"
proof (intro allI impI)
  fix k
  assume k: "k < length ps"
  from th obtain rs where
    "\<forall>k<length ps. simulate_proof L (ps ! k) (Some rd) (Some c) (rs ! k)
        = Inr (sims ! k, rs ! Suc k)"
    unfolding thread_Inr_iff by blast
  with k have "simulate_proof L (ps ! k) (Some rd) (Some c) (rs ! k) = Inr (sims ! k, rs ! Suc k)"
    by blast
  from IH [OF k this]
  show "\<forall>v \<in> set (responses_for (ps ! k) (responses (sims ! k)) x). Some v = map_of rd x" .
qed

lemma responses_for_and:
  assumes "length sims = length ps"
    and "v \<in> set (responses_for (AndProof ps vals sim) (AndResp (map responses sims)) x)"
  shows "\<exists>k<length ps. v \<in> set (responses_for (ps ! k) (responses (sims ! k)) x)"
  using assms by auto

lemma simulate_follows_dict:
  assumes contract: "leaf_follows_responses L"
  shows "set (secret_vars p) \<subseteq> fst ` set rd \<Longrightarrow>
    (\<forall>orp \<in> set (top_ors p). x \<notin> set (secret_vars orp)) \<Longrightarrow>
    simulate_proof L p (Some rd) (Some c) r = Inr (tr, r') \<Longrightarrow>
    \<forall>v \<in> set (responses_for p (responses tr) x). Some v = map_of rd x"
proof (induction p arbitrary: r tr r')
  case (Leaf lf)
  from Leaf.prems(3) have tr: "tr = fst (leaf_simulate_proof L lf (Some rd) (Some c) r)"
    by (cases "leaf_simulate_proof L lf (Some rd) (Some c) r") simp
  from Leaf.prems(1) have cov: "set (lf_secret_vars lf) \<subseteq> fst ` set rd"
    by simp
  with contract have "responses tr = LeafResp (map (\<lambda>s. the (map_of rd s)) (lf_secret_vars lf))"
    unfolding tr leaf_follows_responses_def by blast
  then show ?case
    using leaf_responses_from_dict [OF cov] by simp
next
  case (OrProof ps vals sim ch)
  from OrProof.prems(2) have "x \<notin> set (secret_vars (OrProof ps vals sim ch))"
    by simp
  then have "responses_for (OrProof ps vals sim ch) (responses tr) x = []"
    by (rule responses_for_absent)
  then show ?case
    by simp
next
  case (AndProof ps vals sim)
  let ?A = "AndProof ps vals sim"
  have upd: "update_randomizers ?A (Some rd) r = (rd, r)"
    using AndProof.prems(1) by (rule update_randomizers_complete)
  from AndProof.prems(3) obtain sims r3 where
    th: "thread (\<lambda>subp. simulate_proof L subp (Some rd) (Some c)) ps r = Inr (sims, r3)"
    and tr: "responses tr = AndResp (map responses sims)"
    by (auto simp: upd split: sum.splits)
  have len: "length sims = length ps"
    using th by (rule thread_length)
  have IH: "\<forall>v \<in> set (responses_for (ps ! k) (responses tr') x). Some v = map_of rd x"
    if k: "k < length ps" and s: "simulate_proof L (ps ! k) (Some rd) (Some c) s = Inr (tr', s')"
    for k s tr' s'
  proof (rule AndProof.IH [OF _ _ _ s])
    show "ps ! k \<in> set ps"
      using k by simp
    then show "set (secret_vars (ps ! k)) \<subseteq> fst ` set rd"
      using AndProof.prems(1) by auto
    show "\<forall>orp \<in> set (top_ors (ps ! k)). x \<notin> set (secret_vars orp)"
      using AndProof.prems(2) \<open>ps ! k \<in> set ps\<close> by auto
  qed
  have all: "\<forall>k<length ps. \<forall>v \<in> set (responses_for (ps ! k) (responses (sims ! k)) x).
      Some v = map_of rd x"
  proof (rule and_children_follow [OF _ th])
    fix k s tr' s'
    assume "k < length ps" "simulate_proof L (ps ! k) (Some rd) (Some c) s = Inr (tr', s')"
    then show "\<forall>v \<in> set (responses_for (ps ! k) (responses tr') x). Some v = map_of rd x"
      by (rule IH)
  qed
  show ?case
    unfolding tr using responses_for_and [OF len] all by blast
qed

text \<open>
  Claim C4. Let an AND node have passed the OR-flaw check of its construction, let its
  generator bag be at least as long as its secret bag, and let the leaves answer from the
  response dictionary they are handed. Whenever \<^verbatim>\<open>simulate_proof\<close> returns a transcript,
  it has first completed the response dictionary: the completed dictionary covers every
  secret of the node, agrees with the caller's dictionary on every key the caller
  provided, and is the caller's dictionary itself when that was complete already. It has
  then simulated every child, in order, with the same global challenge (the caller's, when
  given) and that same completed dictionary, and the transcript carries the challenge
  and the children's responses in order. For every secret that occurs in two different
  children, every response that any child's part of the transcript holds for it is the
  value of the completed dictionary, hence the same in each child.
\<close>

theorem AndProof_simulate_proof_consistent:
  assumes "leaf_follows_responses L"
    and "check_or_flaw (AndProof ps vals sim) None = Inr ()"
    and "length (secret_vars (AndProof ps vals sim)) \<le> length (generators (AndProof ps vals sim))"
    and "simulate_proof L (AndProof ps vals sim) responses_dict chal r = Inr (tr, r')"
  shows "\<exists>rd c sims rs.
      rd = fst (update_randomizers (AndProof ps vals sim) responses_dict r)
      \<and> set (secret_vars (AndProof ps vals sim)) \<subseteq> fst ` set rd
      \<and> (\<forall>g. responses_dict = Some g \<and> distinct (map fst g) \<longrightarrow>
            (\<forall>k \<in> fst ` set g. map_of rd k = map_of g k))
      \<and> (\<forall>g. responses_dict = Some g \<and> set (secret_vars (AndProof ps vals sim)) \<subseteq> fst ` set g
            \<longrightarrow> rd = g)
      \<and> (\<forall>c'. chal = Some c' \<longrightarrow> c = c')
      \<and> challenge tr = c
      \<and> length sims = length ps \<and> length rs = Suc (length ps) \<and> rs ! length ps = r'
      \<and> (\<forall>k<length ps. simulate_proof L (ps ! k) (Some rd) (Some c) (rs ! k)
            = Inr (sims ! k, rs ! Suc k))
      \<and> responses tr = AndResp (map responses sims)
      \<and> (\<forall>x i j. i < j \<and> j < length ps \<and> x \<in> set (secret_vars (ps ! i))
              \<and> x \<in> set (secret_vars (ps ! j)) \<longrightarrow>
            (\<forall>k<length ps. \<forall>v \<in> set (responses_for (ps ! k) (responses (sims ! k)) x).
               Some v = map_of rd x))"
proof -
  let ?A = "AndProof ps vals sim"
  obtain rd r1 where upd: "update_randomizers ?A responses_dict r = (rd, r1)"
    by (cases "update_randomizers ?A responses_dict r")
  obtain c r2 where ch: "(case chal of None \<Rightarrow> chal_randbits CHAL_LENGTH r1 | Some c \<Rightarrow> (c, r1)) = (c, r2)"
    by (cases "case chal of None \<Rightarrow> chal_randbits CHAL_LENGTH r1 | Some c \<Rightarrow> (c, r1)")
  have unfold: "simulate_proof L ?A responses_dict chal r =
      (case thread (\<lambda>subp. simulate_proof L subp (Some rd) (Some c)) ps r2 of
         Inl e \<Rightarrow> Inl e
       | Inr (sims, r3) \<Rightarrow>
           Inr (\<lparr>commitment = ListCom (map commitment sims), challenge = c,
                 responses = AndResp (map responses sims),
                 precommitment = ListPrecom (map precommitment sims)\<rparr>, r3))"
    using upd ch by simp
  from assms(4) obtain sims where
    th: "thread (\<lambda>subp. simulate_proof L subp (Some rd) (Some c)) ps r2 = Inr (sims, r')"
    and tr0: "tr = \<lparr>commitment = ListCom (map commitment sims), challenge = c,
                 responses = AndResp (map responses sims),
                 precommitment = ListPrecom (map precommitment sims)\<rparr>"
    unfolding unfold
    by (cases "thread (\<lambda>subp. simulate_proof L subp (Some rd) (Some c)) ps r2") auto
  have tr: "responses tr = AndResp (map responses sims)" "challenge tr = c"
    unfolding tr0 by simp_all
  from th obtain rs where rs: "length rs = Suc (length ps)" "rs ! length ps = r'"
    "length sims = length ps"
    "\<forall>k<length ps. simulate_proof L (ps ! k) (Some rd) (Some c) (rs ! k)
        = Inr (sims ! k, rs ! Suc k)"
    unfolding thread_Inr_iff by blast
  have cov: "set (secret_vars ?A) \<subseteq> fst ` set rd"
    using assms(3) upd by (rule update_randomizers_covers)
  have hon: "\<forall>g. responses_dict = Some g \<and> distinct (map fst g) \<longrightarrow>
            (\<forall>k \<in> fst ` set g. map_of rd k = map_of g k)"
    using upd update_randomizers_honours by blast
  have same: "\<forall>g. responses_dict = Some g \<and> set (secret_vars ?A) \<subseteq> fst ` set g \<longrightarrow> rd = g"
    using upd by (auto simp: update_randomizers_complete)
  have given: "\<forall>c'. chal = Some c' \<longrightarrow> c = c'"
    using ch by auto
  have shared: "\<forall>k<length ps. \<forall>v \<in> set (responses_for (ps ! k) (responses (sims ! k)) x).
               Some v = map_of rd x"
    if x: "i < j \<and> j < length ps \<and> x \<in> set (secret_vars (ps ! i))
              \<and> x \<in> set (secret_vars (ps ! j))" for x i j
  proof (rule and_children_follow [OF _ th])
    fix k s tr' s'
    assume k: "k < length ps"
      and s: "simulate_proof L (ps ! k) (Some rd) (Some c) s = Inr (tr', s')"
    have mem: "ps ! k \<in> set ps"
      using k by simp
    have c1: "set (secret_vars (ps ! k)) \<subseteq> fst ` set rd"
      using cov mem by auto
    have c2: "\<forall>orp \<in> set (top_ors (ps ! k)). x \<notin> set (secret_vars orp)"
    proof
      fix orp
      assume "orp \<in> set (top_ors (ps ! k))"
      with mem have "orp \<in> set (top_ors ?A)"
        by auto
      with assms(2) x show "x \<notin> set (secret_vars orp)"
        using no_flaw_shared_secret [of ps vals sim i j x orp] by blast
    qed
    from simulate_follows_dict [OF assms(1) c1 c2 s]
    show "\<forall>v \<in> set (responses_for (ps ! k) (responses tr') x). Some v = map_of rd x" .
  qed
  have rd: "rd = fst (update_randomizers ?A responses_dict r)"
    using upd by simp
  show ?thesis
  proof (intro exI conjI)
    show "rd = fst (update_randomizers ?A responses_dict r)" by (fact rd)
    show "set (secret_vars ?A) \<subseteq> fst ` set rd" by (fact cov)
    show "\<forall>g. responses_dict = Some g \<and> distinct (map fst g) \<longrightarrow>
            (\<forall>k \<in> fst ` set g. map_of rd k = map_of g k)" by (fact hon)
    show "\<forall>g. responses_dict = Some g \<and> set (secret_vars ?A) \<subseteq> fst ` set g \<longrightarrow> rd = g"
      by (fact same)
    show "\<forall>c'. chal = Some c' \<longrightarrow> c = c'" by (fact given)
    show "challenge tr = c" by (fact tr(2))
    show "length sims = length ps" by (fact rs(3))
    show "length rs = Suc (length ps)" by (fact rs(1))
    show "rs ! length ps = r'" by (fact rs(2))
    show "\<forall>k<length ps. simulate_proof L (ps ! k) (Some rd) (Some c) (rs ! k)
            = Inr (sims ! k, rs ! Suc k)" by (fact rs(4))
    show "responses tr = AndResp (map responses sims)" by (fact tr(1))
    show "\<forall>x i j. i < j \<and> j < length ps \<and> x \<in> set (secret_vars (ps ! i))
              \<and> x \<in> set (secret_vars (ps ! j)) \<longrightarrow>
            (\<forall>k<length ps. \<forall>v \<in> set (responses_for (ps ! k) (responses (sims ! k)) x).
               Some v = map_of rd x)"
      using shared by blast
  qed
qed

lemma example_ops_follows_responses: "leaf_follows_responses example_ops"
  unfolding leaf_follows_responses_def
proof (intro allI impI)
  fix lf :: "unit leaf" and rd :: dict and c :: "int option" and r :: rng
  assume cov: "set (lf_secret_vars lf) \<subseteq> fst ` set rd"
  have "(case map_of rd s of None \<Rightarrow> 0 | Some v \<Rightarrow> v) = the (map_of rd s)"
    if "s \<in> set (lf_secret_vars lf)" for s
  proof -
    from that cov have "s \<in> fst ` set rd" by auto
    then have "map_of rd s \<noteq> None" by (simp add: map_of_eq_None_iff)
    then show ?thesis by auto
  qed
  then have "map (\<lambda>s. case map_of rd s of None \<Rightarrow> 0 | Some v \<Rightarrow> v) (lf_secret_vars lf)
      = map (\<lambda>s. the (map_of rd s)) (lf_secret_vars lf)"
    by simp
  then show "responses (fst (leaf_simulate_proof example_ops lf (Some rd) c r))
      = LeafResp (map (\<lambda>s. the (map_of rd s)) (lf_secret_vars lf))"
    by (simp add: example_ops_def example_simulate_def Let_def split: prod.splits)
qed

lemma example_and_randomizers:
  "update_randomizers
     (AndProof [Leaf (example_leaf [x0, x1] [g0, g0]), Leaf (example_leaf [x0, x2] [g0, g0])]
        [] False :: unit Proof)
     (Some [(x1, 9)]) (\<lambda>n. n)
   = ([(x0, 0), (x1, 9), (x2, 2)], \<lambda>n. Suc (Suc (Suc n)))"
  by (simp add: update_randomizers_def get_randomizers_def random_below_def dict_update_def
        next_rand_def example_leaf_sel x0_def x1_def x2_def g0_def Let_def)

lemma example_leaf_simulate_proof:
  "simulate_proof example_ops (Leaf (example_leaf svs gs)) (Some d) (Some c) r
   = Inr (\<lparr>commitment = LeafCom (c + sum_list (map (\<lambda>s. case map_of d s of None \<Rightarrow> 0 | Some v \<Rightarrow> v) svs)),
            challenge = c,
            responses = LeafResp (map (\<lambda>s. case map_of d s of None \<Rightarrow> 0 | Some v \<Rightarrow> v) svs),
            precommitment = NoPrecom\<rparr>, r)"
  by (simp add: example_ops_def example_simulate_def example_leaf_sel Let_def)

lemma example_and_simulate_proof:
  "simulate_proof example_ops
     (AndProof [Leaf (example_leaf [x0, x1] [g0, g0]), Leaf (example_leaf [x0, x2] [g0, g0])]
        [] False)
     (Some [(x1, 9)]) None (\<lambda>n. n)
   = Inr (\<lparr>commitment = ListCom [LeafCom 12, LeafCom 5], challenge = 3,
            responses = AndResp [LeafResp [0, 9], LeafResp [0, 2]],
            precommitment = ListPrecom [NoPrecom, NoPrecom]\<rparr>,
          \<lambda>n. Suc (Suc (Suc (Suc n))))"
  by (simp only: simulate_proof.simps(2) example_and_randomizers)
     (simp add: example_chal_randbits example_ops_def example_simulate_def example_leaf_sel
        x0_def x1_def x2_def)

theorem AndProof_simulate_proof_consistent_witness:
  "simulate_proof example_ops
     (AndProof [Leaf (example_leaf [x0, x1] [g0, g0]), Leaf (example_leaf [x0, x2] [g0, g0])]
        [] False)
     (Some [(x1, 9)]) None (\<lambda>n. n)
   = Inr (\<lparr>commitment = ListCom [LeafCom 12, LeafCom 5], challenge = 3,
            responses = AndResp [LeafResp [0, 9], LeafResp [0, 2]],
            precommitment = ListPrecom [NoPrecom, NoPrecom]\<rparr>,
          \<lambda>n. Suc (Suc (Suc (Suc n))))
   \<and> responses_for (Leaf (example_leaf [x0, x1] [g0, g0])) (LeafResp [0, 9]) x0 = [0]
   \<and> responses_for (Leaf (example_leaf [x0, x2] [g0, g0])) (LeafResp [0, 2]) x0 = [0]
   \<and> map_of (fst (update_randomizers
         (AndProof [Leaf (example_leaf [x0, x1] [g0, g0]), Leaf (example_leaf [x0, x2] [g0, g0])]
            [] False :: unit Proof)
         (Some [(x1, 9)]) (\<lambda>n. n))) x1 = Some 9
   \<and> set [x0, x1, x0, x2] \<subseteq> fst ` set (fst (update_randomizers
         (AndProof [Leaf (example_leaf [x0, x1] [g0, g0]), Leaf (example_leaf [x0, x2] [g0, g0])]
            [] False :: unit Proof)
         (Some [(x1, 9)]) (\<lambda>n. n)))"
proof -
  let ?A = "AndProof [Leaf (example_leaf [x0, x1] [g0, g0]), Leaf (example_leaf [x0, x2] [g0, g0])]
        [] False :: unit Proof"
  have ok: "check_or_flaw ?A None = Inr ()"
    by simp
  have gens: "length (secret_vars ?A) \<le> length (generators ?A)"
    by (simp add: example_leaf_sel)
  note t = AndProof_simulate_proof_consistent
    [OF example_ops_follows_responses ok gens example_and_simulate_proof]
  from t obtain rd where rd: "rd = fst (update_randomizers ?A (Some [(x1, 9)]) (\<lambda>n. n))"
    "set (secret_vars ?A) \<subseteq> fst ` set rd"
    "\<forall>g. Some [(x1, 9)] = Some g \<and> distinct (map fst g) \<longrightarrow>
       (\<forall>k \<in> fst ` set g. map_of rd k = map_of g k)"
    by (elim exE conjE) (rule that, assumption+)
  from rd(3) have a: "map_of rd x1 = Some 9"
    by simp
  from rd(2) have b: "set [x0, x1, x0, x2] \<subseteq> fst ` set rd"
    by (simp add: example_leaf_sel)
  have c: "responses_for (Leaf (example_leaf [x0, x1] [g0, g0])) (LeafResp [0, 9]) x0 = [0]"
    "responses_for (Leaf (example_leaf [x0, x2] [g0, g0])) (LeafResp [0, 2]) x0 = [0]"
    by (simp_all add: example_leaf_sel x0_def x1_def x2_def)
  from a b c example_and_simulate_proof show ?thesis
    unfolding rd(1) by (intro conjI)
qed

section \<open>State kept on the expression nodes\<close>

lemma collect_st_fst:
  "(\<And>x s. x \<in> set xs \<Longrightarrow> fst (f x s) = g x) \<Longrightarrow> fst (collect_st f xs st) = collect (map g xs)"
proof (induction xs arbitrary: st)
  case Nil
  show ?case by simp
next
  case (Cons x xs)
  have h: "fst (f x st) = g x"
    by (rule Cons.prems) simp
  have t: "fst (collect_st f xs s) = collect (map g xs)" for s
    by (rule Cons.IH) (simp add: Cons.prems)
  obtain y st1 where fx: "f x st = (y, st1)"
    by (cases "f x st")
  obtain z st2 where cs: "collect_st f xs st1 = (z, st2)"
    by (cases "collect_st f xs st1")
  from h fx have y: "g x = y" by simp
  from t [of st1] cs have z: "collect (map g xs) = z" by simp
  show ?case
    by (cases y; cases z) (simp_all add: fx cs y z)
qed

lemma collect_st_frame:
  "(\<And>x s. x \<in> set xs \<Longrightarrow> snd (f x s) b = s b) \<Longrightarrow> snd (collect_st f xs st) b = st b"
proof (induction xs arbitrary: st)
  case Nil
  show ?case by simp
next
  case (Cons x xs)
  have h: "snd (f x st) b = st b"
    by (rule Cons.prems) simp
  have t: "snd (collect_st f xs s) b = s b" for s
    by (rule Cons.IH) (simp add: Cons.prems)
  obtain y st1 where fx: "f x st = (y, st1)"
    by (cases "f x st")
  obtain z st2 where cs: "collect_st f xs st1 = (z, st2)"
    by (cases "collect_st f xs st1")
  from h fx have y: "st1 b = st b" by simp
  from t [of st1] cs have z: "st2 b = st1 b" by simp
  show ?case
    by (cases y; cases z) (simp_all add: fx cs y z)
qed

text \<open>The recomputation with the store computes what \<^verbatim>\<open>recompute_commitment\<close> computes.\<close>

lemma recompute_commitment_node_fst:
  "fst (recompute_commitment_node L p a chal response st) = recompute_commitment L p chal response"
proof (induction L p a chal response st rule: recompute_commitment_node.induct)
  case (1 L lf a chal response st)
  show ?case
    by (simp split: sum.splits)
next
  case (2 L ps vals sim a chal response st)
  show ?case
  proof (cases response)
    case (AndResp andresp)
    have "fst (collect_st (\<lambda>i s.
                   case list_get andresp i of
                     Inl e \<Rightarrow> (Inl e, s)
                   | Inr r \<Rightarrow> recompute_commitment_node L (ps ! i) (a @ [i]) chal r s)
                 [0..<length ps] st)
        = collect (map (\<lambda>i.
                   case list_get andresp i of
                     Inl e \<Rightarrow> Inl e
                   | Inr r \<Rightarrow> recompute_commitment L (ps ! i) chal r)
                 [0..<length ps])"
      by (rule collect_st_fst) (auto simp: 2 AndResp split: sum.splits)
    then show ?thesis
      by (auto simp: AndResp split: sum.splits prod.splits)
  qed simp_all
next
  case (3 L ps vals sim ch a chal response st)
  show ?case
  proof (cases response)
    case (OrResp cs rs)
    show ?thesis
    proof (cases "find_residual_chal cs chal CHAL_LENGTH = 0")
      case True
      have "fst (collect_st (\<lambda>i s.
                         case list_get cs i of
                           Inl e \<Rightarrow> (Inl e, s)
                         | Inr c \<Rightarrow>
                             (case list_get rs i of
                                Inl e \<Rightarrow> (Inl e, s)
                              | Inr r \<Rightarrow> recompute_commitment_node L (ps ! i) (a @ [i]) c r s))
                       [0..<length ps] (st(a \<mapsto> cs)))
        = collect (map (\<lambda>i.
                     case list_get cs i of
                       Inl e \<Rightarrow> Inl e
                     | Inr c \<Rightarrow>
                         (case list_get rs i of
                            Inl e \<Rightarrow> Inl e
                          | Inr r \<Rightarrow> recompute_commitment L (ps ! i) c r))
                   [0..<length ps])"
        by (rule collect_st_fst) (auto simp: 3 OrResp True split: sum.splits)
      with True show ?thesis
        by (auto simp: OrResp Let_def split: sum.splits prod.splits)
    next
      case False
      then show ?thesis
        by (simp add: OrResp)
    qed
  qed simp_all
qed

lemma or_addresses_prefix: "b \<in> set (or_addresses p a) \<Longrightarrow> \<exists>q. b = a @ q"
proof (induction p a arbitrary: b rule: or_addresses.induct)
  case (1 lf a)
  then show ?case by simp
next
  case (2 ps vals sim a)
  from "2.prems" obtain i where i: "i < length ps" "b \<in> set (or_addresses (ps ! i) (a @ [i]))"
    by auto
  from "2.IH" [of i b] i obtain q where "b = (a @ [i]) @ q"
    by auto
  then show ?case by simp
next
  case (3 ps vals sim ch a)
  show ?case
  proof (cases "b = a")
    case True
    then show ?thesis by simp
  next
    case False
    with "3.prems" obtain i where i: "i < length ps" "b \<in> set (or_addresses (ps ! i) (a @ [i]))"
      by auto
    from "3.IH" [of i b] i obtain q where "b = (a @ [i]) @ q"
      by auto
    then show ?thesis by simp
  qed
qed

lemma or_addresses_child: "a \<notin> set (or_addresses p (a @ [i]))"
proof
  assume "a \<in> set (or_addresses p (a @ [i]))"
  from or_addresses_prefix [OF this] obtain q where "a = (a @ [i]) @ q" ..
  then show False by simp
qed

text \<open>The recomputation writes at the addresses of OR nodes only.\<close>

lemma recompute_commitment_node_frame:
  "b \<notin> set (or_addresses p a) \<Longrightarrow> snd (recompute_commitment_node L p a chal response st) b = st b"
proof (induction L p a chal response st rule: recompute_commitment_node.induct)
  case (1 L lf a chal response st)
  show ?case
    by (simp split: sum.splits)
next
  case (2 L ps vals sim a chal response st)
  from "2.prems" have nb: "b \<notin> set (or_addresses (ps ! i) (a @ [i]))" if "i < length ps" for i
    using that by auto
  show ?case
  proof (cases response)
    case (AndResp andresp)
    have "snd (collect_st (\<lambda>i s.
                   case list_get andresp i of
                     Inl e \<Rightarrow> (Inl e, s)
                   | Inr r \<Rightarrow> recompute_commitment_node L (ps ! i) (a @ [i]) chal r s)
                 [0..<length ps] st) b = st b"
      by (rule collect_st_frame) (auto simp: 2 AndResp nb split: sum.splits)
    then show ?thesis
      by (auto simp: AndResp split: sum.splits prod.splits)
  qed simp_all
next
  case (3 L ps vals sim ch a chal response st)
  from "3.prems" have ba: "b \<noteq> a"
    by simp
  from "3.prems" have nb: "b \<notin> set (or_addresses (ps ! i) (a @ [i]))" if "i < length ps" for i
    using that by auto
  show ?case
  proof (cases response)
    case (OrResp cs rs)
    show ?thesis
    proof (cases "find_residual_chal cs chal CHAL_LENGTH = 0")
      case True
      have "snd (collect_st (\<lambda>i s.
                         case list_get cs i of
                           Inl e \<Rightarrow> (Inl e, s)
                         | Inr c \<Rightarrow>
                             (case list_get rs i of
                                Inl e \<Rightarrow> (Inl e, s)
                              | Inr r \<Rightarrow> recompute_commitment_node L (ps ! i) (a @ [i]) c r s))
                       [0..<length ps] (st(a \<mapsto> cs))) b = (st(a \<mapsto> cs)) b"
        by (rule collect_st_frame) (auto simp: 3 OrResp True nb split: sum.splits)
      with True ba show ?thesis
        by (auto simp: OrResp Let_def split: sum.splits prod.splits)
    next
      case False
      with ba show ?thesis
        by (simp add: OrResp)
    qed
  qed simp_all
qed

text \<open>An OR node records the subchallenges it received, whatever the call does next.\<close>

lemma recompute_commitment_node_or_write:
  "snd (recompute_commitment_node L (OrProof ps vals sim ch) a chal (OrResp cs rs) st) a = Some cs"
proof (cases "find_residual_chal cs chal CHAL_LENGTH = 0")
  case True
  have "snd (collect_st (\<lambda>i s.
                     case list_get cs i of
                       Inl e \<Rightarrow> (Inl e, s)
                     | Inr c \<Rightarrow>
                         (case list_get rs i of
                            Inl e \<Rightarrow> (Inl e, s)
                          | Inr r \<Rightarrow> recompute_commitment_node L (ps ! i) (a @ [i]) c r s))
                   [0..<length ps] (st(a \<mapsto> cs))) a = (st(a \<mapsto> cs)) a"
    by (rule collect_st_frame)
       (auto simp: recompute_commitment_node_frame or_addresses_child split: sum.splits)
  with True show ?thesis
    by (auto simp: Let_def split: sum.splits prod.splits)
next
  case False
  then show ?thesis
    by simp
qed

lemma verify_node:
  "fst (verify L H (p, st) transcript message)
     = (p, snd (recompute_commitment_node L p [] (ni_challenge transcript)
                  (ni_responses transcript) st))"
  by (simp add: verify_def Let_def split: prod.splits sum.splits)

lemma prove_node:
  assumes "prove L get_NI_proof p secrets_dict message r = Inr ((p', t), r')"
  shows "\<exists>res r1. get_prover L p secrets_dict r = Inr ((p', res), r1)"
  using assms by (auto simp: prove_def split: sum.splits option.splits)
lemma AndProof_get_prover_node:
  assumes "get_prover L (AndProof ps vals sim) secrets_dict r = Inr ((p', res), r')"
  shows "\<exists>ps'. p' = AndProof ps' (dict_update vals secrets_dict) sim \<and> length ps' = length ps"
proof (cases "sim \<or> dict_update vals secrets_dict = []")
  case True
  with assms show ?thesis
    by (auto simp: Let_def)
next
  case False
  with assms obtain results r1 where
    t: "thread (\<lambda>sub_proof. get_prover L sub_proof
          (secrets_for_prover (secret_vars sub_proof) (dict_update vals secrets_dict))) ps r
        = Inr (results, r1)"
    and p': "p' = AndProof (map fst results) (dict_update vals secrets_dict) sim"
    by (auto simp: Let_def split: sum.splits if_splits)
  from thread_length [OF t] p' show ?thesis
    by simp
qed

lemma OrProof_get_prover_node:
  assumes "get_prover L (OrProof ps vals sim ch) secrets_dict r = Inr ((p', res), r')"
  shows "\<exists>ps' ch'. p' = OrProof ps' (dict_update vals secrets_dict) sim ch'
     \<and> length ps' = length ps
     \<and> (ch' = ch \<or> (\<exists>i. ch' = Some i \<and> i < length ps \<and> \<not> simulation (ps ! i)))"
proof (cases "sim \<or> dict_update vals secrets_dict = []
    \<or> filter (\<lambda>idx. \<not> simulation (ps ! idx)) [0..<length ps] = []")
  case True
  with assms have "p' = OrProof ps (dict_update vals secrets_dict) sim ch"
    by (auto simp: Let_def split: if_splits)
  then show ?thesis
    by simp
next
  case False
  let ?d = "dict_update vals secrets_dict"
  let ?cands = "filter (\<lambda>idx. \<not> simulation (ps ! idx)) [0..<length ps]"
  let ?att = "\<lambda>idx. get_prover L (ps ! idx) (secrets_for_prover (secret_vars (ps ! idx)) ?d)"
  from False assms obtain ps' chosen vp r1 where
    draw: "or_draw ?att ps ?cands r = Inr ((ps', chosen, vp), r1)" and
    p': "p' = OrProof ps' ?d sim (Some chosen)"
    by (auto simp: Let_def split: sum.splits option.splits)
  have "distinct ?cands"
    by simp
  from or_draw_trace [OF draw this] obtain tried where
    len: "length ps' = length ps" and
    t: "tried \<noteq> []" "set tried \<subseteq> set ?cands" "last tried = chosen"
    by blast
  from t have "chosen \<in> set ?cands"
    using last_in_set by blast
  then have "chosen < length ps \<and> \<not> simulation (ps ! chosen)"
    by simp
  with p' len show ?thesis
    by blast
qed

text \<open>
  Claim C9, as amended. The public operations do change state kept on the expression
  node; what each of them changes is this. When \<^verbatim>\<open>get_prover\<close> returns on an AND or OR
  node, and so when \<^verbatim>\<open>prove\<close> returns, the recorded secret values of the node are their
  merge with the caller's witness map, and an OR node may hold a new \<^verbatim>\<open>chosen_idx\<close>,
  which is then the index of a child whose simulation flag is not set; the kind of the
  node, the number of its subproofs and its simulation flag are unchanged. \<^verbatim>\<open>simulate\<close>
  sets the simulation flag of the node, also when it then raises, and leaves its subproofs,
  its recorded secret values and its chosen index unchanged. \<^verbatim>\<open>verify\<close> leaves the
  subproofs, the simulation flag, the recorded secret values and the chosen index of every
  AND and OR node of the tree unchanged; the only attribute it writes on expression nodes
  is \<^verbatim>\<open>or_challenges\<close>, on OR nodes of the tree: the \<^verbatim>\<open>recompute_commitment\<close> of an OR
  node, which verification runs, records there the subchallenges it received, also when it
  then raises.
\<close>

theorem node_state_frame:
  "(get_prover L p secrets_dict r = Inr ((p', res), r') \<and> (is_AndProof p \<or> is_OrProof p) \<longrightarrow>
      secret_values p' = dict_update (secret_values p) secrets_dict
      \<and> simulation p' = simulation p
      \<and> length (subproofs p') = length (subproofs p)
      \<and> is_AndProof p' = is_AndProof p \<and> is_OrProof p' = is_OrProof p
      \<and> (chosen_idx p' = chosen_idx p
           \<or> (\<exists>i. chosen_idx p' = Some i \<and> i < length (subproofs p)
                  \<and> simulation (subproofs p ! i) = False)))
   \<and> (prove L get_NI_proof p secrets_dict message r = Inr ((p1, t), r1)
        \<and> (is_AndProof p \<or> is_OrProof p) \<longrightarrow>
      secret_values p1 = dict_update (secret_values p) secrets_dict
      \<and> simulation p1 = simulation p
      \<and> length (subproofs p1) = length (subproofs p)
      \<and> is_AndProof p1 = is_AndProof p \<and> is_OrProof p1 = is_OrProof p
      \<and> (chosen_idx p1 = chosen_idx p
           \<or> (\<exists>i. chosen_idx p1 = Some i \<and> i < length (subproofs p)
                  \<and> simulation (subproofs p ! i) = False)))
   \<and> fst (simulate L p chal r) = set_simulate p
   \<and> simulation (fst (simulate L p chal r)) = True
   \<and> subproofs (fst (simulate L p chal r)) = subproofs p
   \<and> secret_values (fst (simulate L p chal r)) = secret_values p
   \<and> chosen_idx (fst (simulate L p chal r)) = chosen_idx p
   \<and> fst (fst (verify L H (p, st) transcript message)) = p
   \<and> (\<forall>a. a \<notin> set (or_addresses p []) \<longrightarrow>
          snd (fst (verify L H (p, st) transcript message)) a = st a)
   \<and> (\<forall>cs rs. is_OrProof p \<longrightarrow>
          snd (recompute_commitment_node L p a c (OrResp cs rs) st) a = Some cs)"
proof -
  have A: "secret_values q = dict_update (secret_values p) secrets_dict
      \<and> simulation q = simulation p
      \<and> length (subproofs q) = length (subproofs p)
      \<and> is_AndProof q = is_AndProof p \<and> is_OrProof q = is_OrProof p
      \<and> (chosen_idx q = chosen_idx p
           \<or> (\<exists>i. chosen_idx q = Some i \<and> i < length (subproofs p)
                  \<and> simulation (subproofs p ! i) = False))"
    if a: "get_prover L p secrets_dict r = Inr ((q, res), r')" "is_AndProof p \<or> is_OrProof p"
    for q res r'
  proof (cases p)
    case (Leaf lf)
    with a show ?thesis by simp
  next
    case (AndProof ps vals sim)
    with a AndProof_get_prover_node [of L ps vals sim secrets_dict r q res r']
    show ?thesis by auto
  next
    case (OrProof ps vals sim ch)
    with a OrProof_get_prover_node [of L ps vals sim ch secrets_dict r q res r']
    show ?thesis by auto
  qed
  have A1: "secret_values p' = dict_update (secret_values p) secrets_dict
      \<and> simulation p' = simulation p
      \<and> length (subproofs p') = length (subproofs p)
      \<and> is_AndProof p' = is_AndProof p \<and> is_OrProof p' = is_OrProof p
      \<and> (chosen_idx p' = chosen_idx p
           \<or> (\<exists>i. chosen_idx p' = Some i \<and> i < length (subproofs p)
                  \<and> simulation (subproofs p ! i) = False))"
    if "get_prover L p secrets_dict r = Inr ((p', res), r') \<and> (is_AndProof p \<or> is_OrProof p)"
    using that A [of p' res r'] by blast
  have A2: "secret_values p1 = dict_update (secret_values p) secrets_dict
      \<and> simulation p1 = simulation p
      \<and> length (subproofs p1) = length (subproofs p)
      \<and> is_AndProof p1 = is_AndProof p \<and> is_OrProof p1 = is_OrProof p
      \<and> (chosen_idx p1 = chosen_idx p
           \<or> (\<exists>i. chosen_idx p1 = Some i \<and> i < length (subproofs p)
                  \<and> simulation (subproofs p ! i) = False))"
    if b: "prove L get_NI_proof p secrets_dict message r = Inr ((p1, t), r1)
        \<and> (is_AndProof p \<or> is_OrProof p)"
  proof -
    from b prove_node [of L get_NI_proof p secrets_dict message r p1 t r1]
    obtain res2 r2 where "get_prover L p secrets_dict r = Inr ((p1, res2), r2)"
      by blast
    with b show ?thesis
      using A [of p1 res2 r2] by blast
  qed
  have B: "fst (simulate L p chal r) = set_simulate p"
    by (simp add: simulate_def Let_def)
  have B1: "simulation (set_simulate p) = True" "subproofs (set_simulate p) = subproofs p"
    "secret_values (set_simulate p) = secret_values p" "chosen_idx (set_simulate p) = chosen_idx p"
    by (cases p; simp)+
  have C: "fst (fst (verify L H (p, st) transcript message)) = p"
    by (simp add: verify_node)
  have C1: "\<forall>a. a \<notin> set (or_addresses p []) \<longrightarrow>
          snd (fst (verify L H (p, st) transcript message)) a = st a"
    by (simp add: verify_node recompute_commitment_node_frame)
  have C2: "\<forall>cs rs. is_OrProof p \<longrightarrow>
          snd (recompute_commitment_node L p a c (OrResp cs rs) st) a = Some cs"
  proof (intro allI impI)
    fix cs rs
    assume "is_OrProof p"
    then obtain ps vals sim ch where p: "p = OrProof ps vals sim ch"
      by (cases p) simp_all
    show "snd (recompute_commitment_node L p a c (OrResp cs rs) st) a = Some cs"
      by (simp only: p recompute_commitment_node_or_write)
  qed
  show ?thesis
  proof (intro conjI)
    show "get_prover L p secrets_dict r = Inr ((p', res), r') \<and> (is_AndProof p \<or> is_OrProof p) \<longrightarrow>
      secret_values p' = dict_update (secret_values p) secrets_dict
      \<and> simulation p' = simulation p
      \<and> length (subproofs p') = length (subproofs p)
      \<and> is_AndProof p' = is_AndProof p \<and> is_OrProof p' = is_OrProof p
      \<and> (chosen_idx p' = chosen_idx p
           \<or> (\<exists>i. chosen_idx p' = Some i \<and> i < length (subproofs p)
                  \<and> simulation (subproofs p ! i) = False))"
      using A1 by blast
    show "prove L get_NI_proof p secrets_dict message r = Inr ((p1, t), r1)
        \<and> (is_AndProof p \<or> is_OrProof p) \<longrightarrow>
      secret_values p1 = dict_update (secret_values p) secrets_dict
      \<and> simulation p1 = simulation p
      \<and> length (subproofs p1) = length (subproofs p)
      \<and> is_AndProof p1 = is_AndProof p \<and> is_OrProof p1 = is_OrProof p
      \<and> (chosen_idx p1 = chosen_idx p
           \<or> (\<exists>i. chosen_idx p1 = Some i \<and> i < length (subproofs p)
                  \<and> simulation (subproofs p ! i) = False))"
      using A2 by blast
    show "fst (simulate L p chal r) = set_simulate p" by (fact B)
    show "simulation (fst (simulate L p chal r)) = True" by (simp only: B B1)
    show "subproofs (fst (simulate L p chal r)) = subproofs p" by (simp only: B B1)
    show "secret_values (fst (simulate L p chal r)) = secret_values p" by (simp only: B B1)
    show "chosen_idx (fst (simulate L p chal r)) = chosen_idx p" by (simp only: B B1)
    show "fst (fst (verify L H (p, st) transcript message)) = p" by (fact C)
    show "\<forall>a. a \<notin> set (or_addresses p []) \<longrightarrow>
          snd (fst (verify L H (p, st) transcript message)) a = st a" by (fact C1)
    show "\<forall>cs rs. is_OrProof p \<longrightarrow>
          snd (recompute_commitment_node L p a c (OrResp cs rs) st) a = Some cs" by (fact C2)
  qed
qed

lemma example_and_simulate:
  "simulate example_ops
      (AndProof [Leaf (example_leaf [x0] [g0]), Leaf (example_leaf [x1] [g0])] [] False :: unit Proof) (Some 7) (\<lambda>n. n)
   = (AndProof [Leaf (example_leaf [x0] [g0]), Leaf (example_leaf [x1] [g0])] [] True,
      Inr ((\<lparr>commitment = ListCom [LeafCom 7, LeafCom 8], challenge = 7,
              responses = AndResp [LeafResp [0], LeafResp [1]],
              precommitment = ListPrecom [NoPrecom, NoPrecom]\<rparr>,
            ''E''), \<lambda>n. Suc (Suc n)))"
  by (simp add: simulate_def update_randomizers_def get_randomizers_def random_below_def
        next_rand_def prehash_statement_def ec_encode_def list_get_def
        example_ops_def example_simulate_def example_leaf_def x0_def x1_def g0_def Let_def)

lemma example_and_simulate_raises:
  "simulate example_ops
      (AndProof [Leaf (example_leaf [] []), Leaf (example_leaf [] [])] [] False :: unit Proof) (Some 7) (\<lambda>n. n)
   = (AndProof [Leaf (example_leaf [] []), Leaf (example_leaf [] [])] [] True, Inl IndexError)"
  by (simp add: simulate_def update_randomizers_def get_randomizers_def
        prehash_statement_def ec_encode_def list_get_def
        example_ops_def example_simulate_def example_leaf_def Let_def)

lemma example_and_prove:
  "prove example_ops (\<lambda>p m r. Inr (m, r))
      (AndProof [Leaf (example_leaf [x0] [g0]), Leaf (example_leaf [x1] [g0])] [] False :: unit Proof)
      [(x0, 1), (x1, 2)] ''m'' (\<lambda>n. n)
   = Inr (((AndProof [Leaf ((example_leaf [x0] [g0])\<lparr>lf_secret_values := [(x0, 1)]\<rparr>),
                 Leaf ((example_leaf [x1] [g0])\<lparr>lf_secret_values := [(x1, 2)]\<rparr>)]
         [(x0, 1), (x1, 2)] False :: unit Proof), ''m''), \<lambda>n. n)"
  by (simp add: prove_def prover_eval)

lemma example_or_verify:
  "verify example_ops (\<lambda>statement com pre m. 0)
      ((OrProof [Leaf (example_leaf [x0] [g0]), Leaf (example_leaf [x1] [g0])] [] False None :: unit Proof), \<lambda>a. None)
      \<lparr>ni_challenge = 4, ni_responses = OrResp [2, 3] [LeafResp [1], LeafResp [1]],
        ni_precommitment = NoPrecom, ni_statement = ''E''\<rparr> []
   = (((OrProof [Leaf (example_leaf [x0] [g0]), Leaf (example_leaf [x1] [g0])] [] False None :: unit Proof),
       (\<lambda>a. None)([] \<mapsto> [2, 3])), Inl InconsistentChallenge)"
  by (simp add: verify_def find_residual_chal_def add_Bn_array_def CHAL_LENGTH_def Let_def)

theorem node_state_frame_witness:
  "fst (fst (projr (get_prover example_ops
      (OrProof [Leaf (example_leaf [x0] [g0]), Leaf (example_leaf [x1] [g0]),
                Leaf (example_leaf [x2] [g0])] [] False None :: unit Proof)
      [(x1, 5)] (\<lambda>n. n))))
     = (OrProof [Leaf (example_leaf [x0] [g0]),
                Leaf ((example_leaf [x1] [g0])\<lparr>lf_secret_values := [(x1, 5)]\<rparr>),
                Leaf (example_leaf [x2] [g0])] [(x1, 5)] False (Some 1) :: unit Proof)
   \<and> secret_values (fst (fst (projr (get_prover example_ops
      (OrProof [Leaf (example_leaf [x0] [g0]), Leaf (example_leaf [x1] [g0]),
                Leaf (example_leaf [x2] [g0])] [] False None :: unit Proof)
      [(x1, 5)] (\<lambda>n. n)))))
     = dict_update (secret_values (OrProof [Leaf (example_leaf [x0] [g0]), Leaf (example_leaf [x1] [g0]),
                Leaf (example_leaf [x2] [g0])] [] False None :: unit Proof)) [(x1, 5)]
   \<and> chosen_idx (fst (fst (projr (get_prover example_ops
      (OrProof [Leaf (example_leaf [x0] [g0]), Leaf (example_leaf [x1] [g0]),
                Leaf (example_leaf [x2] [g0])] [] False None :: unit Proof)
      [(x1, 5)] (\<lambda>n. n))))) = Some 1
   \<and> fst (fst (projr (prove example_ops (\<lambda>p m r. Inr (m, r))
      (AndProof [Leaf (example_leaf [x0] [g0]), Leaf (example_leaf [x1] [g0])] [] False :: unit Proof)
      [(x0, 1), (x1, 2)] ''m'' (\<lambda>n. n))))
     = (AndProof [Leaf ((example_leaf [x0] [g0])\<lparr>lf_secret_values := [(x0, 1)]\<rparr>),
                 Leaf ((example_leaf [x1] [g0])\<lparr>lf_secret_values := [(x1, 2)]\<rparr>)]
         [(x0, 1), (x1, 2)] False :: unit Proof)
   \<and> secret_values (fst (fst (projr (prove example_ops (\<lambda>p m r. Inr (m, r))
      (AndProof [Leaf (example_leaf [x0] [g0]), Leaf (example_leaf [x1] [g0])] [] False :: unit Proof)
      [(x0, 1), (x1, 2)] ''m'' (\<lambda>n. n)))))
     = dict_update (secret_values (AndProof [Leaf (example_leaf [x0] [g0]), Leaf (example_leaf [x1] [g0])] [] False :: unit Proof)) [(x0, 1), (x1, 2)]
   \<and> fst (simulate example_ops
      (AndProof [Leaf (example_leaf [x0] [g0]), Leaf (example_leaf [x1] [g0])] [] False :: unit Proof) (Some 7) (\<lambda>n. n))
     = set_simulate (AndProof [Leaf (example_leaf [x0] [g0]), Leaf (example_leaf [x1] [g0])] [] False :: unit Proof)
   \<and> simulation (fst (simulate example_ops
      (AndProof [Leaf (example_leaf [x0] [g0]), Leaf (example_leaf [x1] [g0])] [] False :: unit Proof) (Some 7) (\<lambda>n. n))) = True
   \<and> snd (simulate example_ops
      (AndProof [Leaf (example_leaf [x0] [g0]), Leaf (example_leaf [x1] [g0])] [] False :: unit Proof) (Some 7) (\<lambda>n. n))
     = Inr ((\<lparr>commitment = ListCom [LeafCom 7, LeafCom 8], challenge = 7,
              responses = AndResp [LeafResp [0], LeafResp [1]],
              precommitment = ListPrecom [NoPrecom, NoPrecom]\<rparr>,
            ''E''), \<lambda>n. Suc (Suc n))
   \<and> simulation (fst (simulate example_ops
      (AndProof [Leaf (example_leaf [] []), Leaf (example_leaf [] [])] [] False :: unit Proof) (Some 7) (\<lambda>n. n))) = True
   \<and> snd (simulate example_ops
      (AndProof [Leaf (example_leaf [] []), Leaf (example_leaf [] [])] [] False :: unit Proof) (Some 7) (\<lambda>n. n)) = Inl IndexError
   \<and> fst (fst (verify example_ops (\<lambda>statement com pre m. 0)
      ((OrProof [Leaf (example_leaf [x0] [g0]), Leaf (example_leaf [x1] [g0])] [] False None :: unit Proof), \<lambda>a. None)
      \<lparr>ni_challenge = 4, ni_responses = OrResp [2, 3] [LeafResp [1], LeafResp [1]],
        ni_precommitment = NoPrecom, ni_statement = ''E''\<rparr> []))
     = (OrProof [Leaf (example_leaf [x0] [g0]), Leaf (example_leaf [x1] [g0])] [] False None :: unit Proof)
   \<and> snd (recompute_commitment_node example_ops
      (OrProof [Leaf (example_leaf [x0] [g0]), Leaf (example_leaf [x1] [g0])] [] False None :: unit Proof)
      [] 4 (OrResp [2, 3] [LeafResp [1], LeafResp [1]]) (\<lambda>a. None)) [] = Some [2, 3]
   \<and> snd (fst (verify example_ops (\<lambda>statement com pre m. 0)
      ((OrProof [Leaf (example_leaf [x0] [g0]), Leaf (example_leaf [x1] [g0])] [] False None :: unit Proof), \<lambda>a. None)
      \<lparr>ni_challenge = 4, ni_responses = OrResp [2, 3] [LeafResp [1], LeafResp [1]],
        ni_precommitment = NoPrecom, ni_statement = ''E''\<rparr> [])) [0] = None
   \<and> snd (verify example_ops (\<lambda>statement com pre m. 0)
      ((OrProof [Leaf (example_leaf [x0] [g0]), Leaf (example_leaf [x1] [g0])] [] False None :: unit Proof), \<lambda>a. None)
      \<lparr>ni_challenge = 4, ni_responses = OrResp [2, 3] [LeafResp [1], LeafResp [1]],
        ni_precommitment = NoPrecom, ni_statement = ''E''\<rparr> []) = Inl InconsistentChallenge"
proof -
  have or_node: "is_AndProof (OrProof [Leaf (example_leaf [x0] [g0]), Leaf (example_leaf [x1] [g0]),
                Leaf (example_leaf [x2] [g0])] [] False None :: unit Proof)
      \<or> is_OrProof (OrProof [Leaf (example_leaf [x0] [g0]), Leaf (example_leaf [x1] [g0]),
                Leaf (example_leaf [x2] [g0])] [] False None :: unit Proof)"
    by simp
  have and_node: "is_AndProof (AndProof [Leaf (example_leaf [x0] [g0]), Leaf (example_leaf [x1] [g0])] [] False :: unit Proof)
      \<or> is_OrProof (AndProof [Leaf (example_leaf [x0] [g0]), Leaf (example_leaf [x1] [g0])] [] False :: unit Proof)"
    by simp
  note c1 = node_state_frame [THEN conjunct1, rule_format,
      OF conjI [OF example_or_get_prover or_node]]
  note c2 = node_state_frame [THEN conjunct2, THEN conjunct1, rule_format,
      OF conjI [OF example_and_prove and_node]]
  note c3 = node_state_frame [THEN conjunct2, THEN conjunct2, THEN conjunct1]
  note c4 = node_state_frame [THEN conjunct2, THEN conjunct2, THEN conjunct2, THEN conjunct1]
  note c8 = node_state_frame [THEN conjunct2, THEN conjunct2, THEN conjunct2, THEN conjunct2,
      THEN conjunct2, THEN conjunct2, THEN conjunct2, THEN conjunct1]
  note c9 = node_state_frame [THEN conjunct2, THEN conjunct2, THEN conjunct2, THEN conjunct2,
      THEN conjunct2, THEN conjunct2, THEN conjunct2, THEN conjunct2, THEN conjunct1, rule_format]
  note c10 = node_state_frame [THEN conjunct2, THEN conjunct2, THEN conjunct2, THEN conjunct2,
      THEN conjunct2, THEN conjunct2, THEN conjunct2, THEN conjunct2, THEN conjunct2, rule_format]
  have w1: "fst (fst (projr (get_prover example_ops
      (OrProof [Leaf (example_leaf [x0] [g0]), Leaf (example_leaf [x1] [g0]),
                Leaf (example_leaf [x2] [g0])] [] False None :: unit Proof)
      [(x1, 5)] (\<lambda>n. n))))
     = (OrProof [Leaf (example_leaf [x0] [g0]),
                Leaf ((example_leaf [x1] [g0])\<lparr>lf_secret_values := [(x1, 5)]\<rparr>),
                Leaf (example_leaf [x2] [g0])] [(x1, 5)] False (Some 1) :: unit Proof)"
    by (simp only: example_or_get_prover) simp
  from c1 have w2: "secret_values (fst (fst (projr (get_prover example_ops
      (OrProof [Leaf (example_leaf [x0] [g0]), Leaf (example_leaf [x1] [g0]),
                Leaf (example_leaf [x2] [g0])] [] False None :: unit Proof)
      [(x1, 5)] (\<lambda>n. n)))))
     = dict_update (secret_values (OrProof [Leaf (example_leaf [x0] [g0]), Leaf (example_leaf [x1] [g0]),
                Leaf (example_leaf [x2] [g0])] [] False None :: unit Proof)) [(x1, 5)]"
    by (simp only: example_or_get_prover) simp
  have w3: "chosen_idx (fst (fst (projr (get_prover example_ops
      (OrProof [Leaf (example_leaf [x0] [g0]), Leaf (example_leaf [x1] [g0]),
                Leaf (example_leaf [x2] [g0])] [] False None :: unit Proof)
      [(x1, 5)] (\<lambda>n. n))))) = Some 1"
    by (simp only: example_or_get_prover) simp
  have w4: "fst (fst (projr (prove example_ops (\<lambda>p m r. Inr (m, r))
      (AndProof [Leaf (example_leaf [x0] [g0]), Leaf (example_leaf [x1] [g0])] [] False :: unit Proof)
      [(x0, 1), (x1, 2)] ''m'' (\<lambda>n. n))))
     = (AndProof [Leaf ((example_leaf [x0] [g0])\<lparr>lf_secret_values := [(x0, 1)]\<rparr>),
                 Leaf ((example_leaf [x1] [g0])\<lparr>lf_secret_values := [(x1, 2)]\<rparr>)]
         [(x0, 1), (x1, 2)] False :: unit Proof)"
    by (simp only: example_and_prove) simp
  from c2 have w5: "secret_values (fst (fst (projr (prove example_ops (\<lambda>p m r. Inr (m, r))
      (AndProof [Leaf (example_leaf [x0] [g0]), Leaf (example_leaf [x1] [g0])] [] False :: unit Proof)
      [(x0, 1), (x1, 2)] ''m'' (\<lambda>n. n)))))
     = dict_update (secret_values (AndProof [Leaf (example_leaf [x0] [g0]), Leaf (example_leaf [x1] [g0])] [] False :: unit Proof)) [(x0, 1), (x1, 2)]"
    by (simp only: example_and_prove) simp
  have w6: "fst (simulate example_ops
      (AndProof [Leaf (example_leaf [x0] [g0]), Leaf (example_leaf [x1] [g0])] [] False :: unit Proof) (Some 7) (\<lambda>n. n))
     = set_simulate (AndProof [Leaf (example_leaf [x0] [g0]), Leaf (example_leaf [x1] [g0])] [] False :: unit Proof)"
    by (rule c3)
  have w7: "simulation (fst (simulate example_ops
      (AndProof [Leaf (example_leaf [x0] [g0]), Leaf (example_leaf [x1] [g0])] [] False :: unit Proof) (Some 7) (\<lambda>n. n))) = True"
    by (rule c4)
  have w8: "snd (simulate example_ops
      (AndProof [Leaf (example_leaf [x0] [g0]), Leaf (example_leaf [x1] [g0])] [] False :: unit Proof) (Some 7) (\<lambda>n. n))
     = Inr ((\<lparr>commitment = ListCom [LeafCom 7, LeafCom 8], challenge = 7,
              responses = AndResp [LeafResp [0], LeafResp [1]],
              precommitment = ListPrecom [NoPrecom, NoPrecom]\<rparr>,
            ''E''), \<lambda>n. Suc (Suc n))"
    by (simp only: example_and_simulate) simp
  have w9: "simulation (fst (simulate example_ops
      (AndProof [Leaf (example_leaf [] []), Leaf (example_leaf [] [])] [] False :: unit Proof) (Some 7) (\<lambda>n. n))) = True"
    by (rule c4)
  have w10: "snd (simulate example_ops
      (AndProof [Leaf (example_leaf [] []), Leaf (example_leaf [] [])] [] False :: unit Proof) (Some 7) (\<lambda>n. n)) = Inl IndexError"
    by (simp only: example_and_simulate_raises) simp
  have w11: "fst (fst (verify example_ops (\<lambda>statement com pre m. 0)
      ((OrProof [Leaf (example_leaf [x0] [g0]), Leaf (example_leaf [x1] [g0])] [] False None :: unit Proof), \<lambda>a. None)
      \<lparr>ni_challenge = 4, ni_responses = OrResp [2, 3] [LeafResp [1], LeafResp [1]],
        ni_precommitment = NoPrecom, ni_statement = ''E''\<rparr> []))
     = (OrProof [Leaf (example_leaf [x0] [g0]), Leaf (example_leaf [x1] [g0])] [] False None :: unit Proof)"
    by (rule c8)
  have w12: "snd (recompute_commitment_node example_ops
      (OrProof [Leaf (example_leaf [x0] [g0]), Leaf (example_leaf [x1] [g0])] [] False None :: unit Proof)
      [] 4 (OrResp [2, 3] [LeafResp [1], LeafResp [1]]) (\<lambda>a. None)) [] = Some [2, 3]"
    by (rule c10) simp
  have "[0] \<notin> set (or_addresses (OrProof [Leaf (example_leaf [x0] [g0]), Leaf (example_leaf [x1] [g0])] [] False None :: unit Proof) [])"
    by (simp add: upt_rec)
  then have w13: "snd (fst (verify example_ops (\<lambda>statement com pre m. 0)
      ((OrProof [Leaf (example_leaf [x0] [g0]), Leaf (example_leaf [x1] [g0])] [] False None :: unit Proof), \<lambda>a. None)
      \<lparr>ni_challenge = 4, ni_responses = OrResp [2, 3] [LeafResp [1], LeafResp [1]],
        ni_precommitment = NoPrecom, ni_statement = ''E''\<rparr> [])) [0] = None"
    by (rule trans [OF c9]) simp
  have w14: "snd (verify example_ops (\<lambda>statement com pre m. 0)
      ((OrProof [Leaf (example_leaf [x0] [g0]), Leaf (example_leaf [x1] [g0])] [] False None :: unit Proof), \<lambda>a. None)
      \<lparr>ni_challenge = 4, ni_responses = OrResp [2, 3] [LeafResp [1], LeafResp [1]],
        ni_precommitment = NoPrecom, ni_statement = ''E''\<rparr> []) = Inl InconsistentChallenge"
    by (simp only: example_or_verify) simp
  from w1 w2 w3 w4 w5 w6 w7 w8 w9 w10 w11 w12 w13 w14 show ?thesis
    by (intro conjI)
qed

text \<open>
  Claim C9 as stated fails: \<^verbatim>\<open>get_prover\<close> on an OR node changes the node's recorded
  secret values and its chosen index, and \<^verbatim>\<open>simulate\<close> on an AND node sets the node's
  simulation flag.
\<close>

theorem node_state_counterexample:
  "secret_values (fst (fst (projr (get_prover example_ops
      (OrProof [Leaf (example_leaf [x0] [g0]), Leaf (example_leaf [x1] [g0]),
                Leaf (example_leaf [x2] [g0])] [] False None :: unit Proof)
      [(x1, 5)] (\<lambda>n. n)))))
    \<noteq> secret_values (OrProof [Leaf (example_leaf [x0] [g0]), Leaf (example_leaf [x1] [g0]),
                Leaf (example_leaf [x2] [g0])] [] False None :: unit Proof)
   \<and> chosen_idx (fst (fst (projr (get_prover example_ops
      (OrProof [Leaf (example_leaf [x0] [g0]), Leaf (example_leaf [x1] [g0]),
                Leaf (example_leaf [x2] [g0])] [] False None :: unit Proof)
      [(x1, 5)] (\<lambda>n. n)))))
    \<noteq> chosen_idx (OrProof [Leaf (example_leaf [x0] [g0]), Leaf (example_leaf [x1] [g0]),
                Leaf (example_leaf [x2] [g0])] [] False None :: unit Proof)
   \<and> simulation (fst (simulate example_ops
      (AndProof [Leaf (example_leaf [x0] [g0]), Leaf (example_leaf [x1] [g0])] [] False :: unit Proof) (Some 7) (\<lambda>n. n)))
    \<noteq> simulation (AndProof [Leaf (example_leaf [x0] [g0]), Leaf (example_leaf [x1] [g0])] [] False :: unit Proof)
"
  by (simp only: example_or_get_prover example_and_simulate) simp

end
